theory Spec2Isabelle
  imports Complex_Main
begin

section \<open>Numbers\<close>

text \<open>
  The source is TypeScript; its \<^verbatim>\<open>number\<close> is modelled as \<^typ>\<open>real\<close>, and the results of
  \<^verbatim>\<open>Math.floor\<close> and \<^verbatim>\<open>Math.round\<close>, which are whole numbers, as \<^typ>\<open>int\<close>.
  \<^verbatim>\<open>Math.log2(x)\<close> is \<^term>\<open>log 2 x\<close> and \<^verbatim>\<open>Math.pow(2, x)\<close> is \<^term>\<open>2 powr x\<close>.
  Rounding errors of the 64-bit floating point format are not modelled.
\<close>

definition js_round :: "real \<Rightarrow> int" where
  \<comment> \<open>\<^verbatim>\<open>Math.round\<close>: the nearest integer, a half rounded towards plus infinity.\<close>
  "js_round x = \<lfloor>x + 1 / 2\<rfloor>"

definition js_trunc :: "real \<Rightarrow> int" where
  "js_trunc x = (if 0 \<le> x then \<lfloor>x\<rfloor> else \<lceil>x\<rceil>)"

definition js_rem :: "real \<Rightarrow> real \<Rightarrow> real" where
  \<comment> \<open>The operator \<^verbatim>\<open>%\<close>: the remainder of the truncated division, with the sign of the dividend.\<close>
  "js_rem x y = x - y * of_int (js_trunc (x / y))"

definition js_rem_int :: "int \<Rightarrow> int \<Rightarrow> int" where
  \<comment> \<open>The operator \<^verbatim>\<open>%\<close> on whole numbers.\<close>
  "js_rem_int a b = sgn a * (\<bar>a\<bar> mod \<bar>b\<bar>)"

section \<open>utils/music.ts\<close>

datatype ScaleType = Chromatic | Major | Minor | Dorian | Phrygian | Lydian | Mixolydian
  | Aeolian | Locrian | PentatonicMajor | PentatonicMinor | Blues

datatype ChordType = Off | Triad | Sus2 | Sus4 | Maj7 | M7 | Dom7 | Dim | Aug | Maj9 | M9

fun SCALES :: "ScaleType \<Rightarrow> int list" where
  "SCALES Chromatic = [0, 1, 2, 3, 4, 5, 6, 7, 8, 9, 10, 11]"
| "SCALES Major = [0, 2, 4, 5, 7, 9, 11]"
| "SCALES Minor = [0, 2, 3, 5, 7, 8, 10]"
| "SCALES Dorian = [0, 2, 3, 5, 7, 9, 10]"
| "SCALES Phrygian = [0, 1, 3, 5, 7, 8, 10]"
| "SCALES Lydian = [0, 2, 4, 6, 7, 9, 11]"
| "SCALES Mixolydian = [0, 2, 4, 5, 7, 9, 10]"
| "SCALES Aeolian = [0, 2, 3, 5, 7, 8, 10]"
| "SCALES Locrian = [0, 1, 3, 5, 6, 8, 10]"
| "SCALES PentatonicMajor = [0, 2, 4, 7, 9]"
| "SCALES PentatonicMinor = [0, 3, 5, 7, 10]"
| "SCALES Blues = [0, 3, 5, 6, 7, 10]"

text \<open>
  The body of the loop of \<^verbatim>\<open>getNearestScaleNote\<close>. The accumulator is the pair
  \<^verbatim>\<open>(minDiff, nearestInterval)\<close>; \<^verbatim>\<open>minDiff\<close> starts as \<^verbatim>\<open>Infinity\<close>, which is \<^term>\<open>None\<close>.
\<close>

fun nearest_step :: "int \<Rightarrow> int option \<times> int \<Rightarrow> int \<Rightarrow> int option \<times> int" where
  "nearest_step normalizedIndex (minDiff, nearestInterval) interval =
     (let diff = \<bar>normalizedIndex - interval\<bar>
      in if (case minDiff of None \<Rightarrow> True | Some m \<Rightarrow> diff < m)
         then (Some diff, interval)
         else (minDiff, nearestInterval))"

definition normalizedIndex_of :: "real \<Rightarrow> int" where
  \<comment> \<open>\<^verbatim>\<open>noteIndex\<close> and \<^verbatim>\<open>normalizedIndex\<close> of \<^verbatim>\<open>getNearestScaleNote\<close>.\<close>
  "normalizedIndex_of semitonesFromRoot =
     (let noteIndex = js_round (js_rem semitonesFromRoot 12)
      in if noteIndex < 0 then noteIndex + 12 else noteIndex)"

definition getNearestScaleNote :: "real \<Rightarrow> ScaleType \<Rightarrow> int" where
  "getNearestScaleNote semitonesFromRoot scaleType =
     (let scale = SCALES scaleType;
          octave = \<lfloor>semitonesFromRoot / 12\<rfloor>;
          normalizedIndex = normalizedIndex_of semitonesFromRoot;
          nearestInterval = snd (foldl (nearest_step normalizedIndex) (None, 0) scale)
      in octave * 12 + nearestInterval)"

definition quantizeFrequency :: "real \<Rightarrow> real \<Rightarrow> ScaleType \<Rightarrow> real" where
  "quantizeFrequency freq rootFreq scaleType =
     (if scaleType = Chromatic then freq
      else
        let semitonesEx = 12 * log 2 (freq / rootFreq);
            quantizedSemitones = getNearestScaleNote semitonesEx scaleType
        in rootFreq * 2 powr (of_int quantizedSemitones / 12))"

fun CHORD_INTERVALS :: "ChordType \<Rightarrow> int list option" where
  "CHORD_INTERVALS Maj7 = Some [0, 4, 7, 11]"
| "CHORD_INTERVALS M7 = Some [0, 3, 7, 10]"
| "CHORD_INTERVALS Dom7 = Some [0, 4, 7, 10]"
| "CHORD_INTERVALS Sus2 = Some [0, 2, 7]"
| "CHORD_INTERVALS Sus4 = Some [0, 5, 7]"
| "CHORD_INTERVALS Aug = Some [0, 4, 8]"
| "CHORD_INTERVALS Dim = Some [0, 3, 6]"
| "CHORD_INTERVALS Maj9 = Some [0, 4, 7, 11, 14]"
| "CHORD_INTERVALS M9 = Some [0, 3, 7, 10, 14]"
| "CHORD_INTERVALS Off = None"
| "CHORD_INTERVALS Triad = None"

text \<open>
  The body of the \<^verbatim>\<open>forEach\<close> of \<^verbatim>\<open>getChordFrequencies\<close> that looks for the scale degree.
  The accumulator is \<^verbatim>\<open>(minDiff, intervalIndex)\<close>, started at \<^verbatim>\<open>(100, -1)\<close>; the argument is
  the pair \<^verbatim>\<open>(val, idx)\<close>.
\<close>

fun index_step :: "int \<Rightarrow> int \<times> int \<Rightarrow> int \<times> nat \<Rightarrow> int \<times> int" where
  "index_step normBaseMod (minDiff, intervalIndex) (val, idx) =
     (if \<bar>val - normBaseMod\<bar> < minDiff
      then (\<bar>val - normBaseMod\<bar>, int idx)
      else (minDiff, intervalIndex))"

definition findIntervalIndex :: "int list \<Rightarrow> int \<Rightarrow> int" where
  "findIntervalIndex intervals normBaseMod =
     snd (foldl (index_step normBaseMod) (100, -1) (zip intervals [0..<length intervals]))"

definition chordDegree :: "real \<Rightarrow> int list \<Rightarrow> int \<Rightarrow> int \<Rightarrow> int \<Rightarrow> real" where
  \<comment> \<open>The function mapped over \<^verbatim>\<open>chordOffsets\<close>.\<close>
  "chordDegree rootFreq intervals currentOctave intervalIndex offset =
     (let totalIndex = intervalIndex + offset;
          effectiveIntervalIndex = js_rem_int totalIndex (int (length intervals));
          octaveShift = \<lfloor>real_of_int totalIndex / real (length intervals)\<rfloor>;
          scaleInterval = intervals ! nat effectiveIntervalIndex;
          totalSemitones = scaleInterval + (currentOctave + octaveShift) * 12
      in rootFreq * 2 powr (of_int totalSemitones / 12))"

definition getChordFrequencies :: "real \<Rightarrow> real \<Rightarrow> ScaleType \<Rightarrow> ChordType \<Rightarrow> real list" where
  "getChordFrequencies baseFreq rootFreq scaleType chordType =
     (if chordType = Off then [baseFreq]
      else case CHORD_INTERVALS chordType of
        Some ivs \<Rightarrow> map (\<lambda>semitone. baseFreq * 2 powr (of_int semitone / 12)) ivs
      | None \<Rightarrow>
          if scaleType = Chromatic then
            (if chordType = Triad
             then map (\<lambda>s. baseFreq * 2 powr (of_int s / 12)) [0, 4, 7]
             else [baseFreq])
          else
            let semitonesFromRoot = 12 * log 2 (baseFreq / rootFreq);
                quantizedSemitones = getNearestScaleNote semitonesFromRoot scaleType;
                intervals = SCALES scaleType;
                currentOctave = \<lfloor>real_of_int quantizedSemitones / 12\<rfloor>;
                baseNoteIndex = js_round (js_rem (of_int quantizedSemitones) 12);
                normBaseMod = js_rem_int (js_rem_int baseNoteIndex 12 + 12) 12;
                intervalIndex = findIntervalIndex intervals normBaseMod
            in if intervalIndex = -1 then [baseFreq]
               else if chordType = Triad
               then map (chordDegree rootFreq intervals currentOctave intervalIndex) [0, 2, 4]
               else [baseFreq])"

text \<open>
  The quantizer as the specification words it: the position inside the octave is
  \<^verbatim>\<open>round(s) mod 12\<close>, and the interval chosen is the first one of least distance.
\<close>

definition quantize_spec :: "real \<Rightarrow> real \<Rightarrow> ScaleType \<Rightarrow> real" where
  "quantize_spec freq rootFreq scale =
     (if scale = Chromatic then freq
      else
        let s = 12 * log 2 (freq / rootFreq);
            octave = \<lfloor>s / 12\<rfloor>;
            position = js_round s mod 12;
            interval = arg_min_list (\<lambda>i. \<bar>position - i\<bar>) (SCALES scale)
        in rootFreq * 2 powr (of_int (octave * 12 + interval) / 12))"

subsection \<open>The chord function on the strings it receives\<close>

text \<open>
  \<^verbatim>\<open>ScaleType\<close> and \<^verbatim>\<open>ChordType\<close> are unions of string literals, checked by the compiler only:
  when the program runs, \<^verbatim>\<open>getChordFrequencies\<close> receives two strings. \<open>SCALES_keys\<close> are the
  keys of the object \<^verbatim>\<open>SCALES\<close> and \<open>CHORD_INTERVALS_entries\<close> the entries of the object
  \<^verbatim>\<open>CHORD_INTERVALS\<close>. \<open>Object_prototype_keys\<close> are the names every object inherits: for such a
  name \<^verbatim>\<open>CHORD_INTERVALS[chordType]\<close> is not undefined and has no method \<^verbatim>\<open>map\<close>, and the call
  throws a \<^verbatim>\<open>TypeError\<close>. For a scale that is not a key of \<^verbatim>\<open>SCALES\<close> (or is an inherited name),
  \<^verbatim>\<open>getNearestScaleNote\<close> throws a \<^verbatim>\<open>TypeError\<close> when it iterates over \<^verbatim>\<open>scale.intervals\<close>.
\<close>

datatype error = TypeError








definition position_of :: "int list \<Rightarrow> int \<Rightarrow> nat" where
  \<comment> \<open>The index of the first occurrence of \<open>p\<close> in \<open>xs\<close> (the length of \<open>xs\<close> if there is none).\<close>
  "position_of xs p = length (takeWhile (\<lambda>x. x \<noteq> p) xs)"

section \<open>audio/Arpeggiator.ts\<close>

datatype ArpPattern = Up | Down | UpDown | Random | Chord

datatype ArpRate = Rate4n | Rate8n | Rate16n | Rate32n

text \<open>
  \<^verbatim>\<open>activeNotes\<close> is a \<^verbatim>\<open>Set<number>\<close>: a list without duplicates, in insertion order.
  The \<^verbatim>\<open>Tone.Loop\<close> that calls \<^verbatim>\<open>tick\<close> is the environment; a tick is one call of \<open>tick\<close>.
\<close>

record Arpeggiator =
  activeNotes :: "real list"
  sortedNotes :: "real list"
  pattern :: ArpPattern
  rate :: ArpRate
  index :: nat
  isEnabled :: bool

definition new_Arpeggiator :: Arpeggiator where
  "new_Arpeggiator =
     \<lparr>activeNotes = [], sortedNotes = [], pattern = Up, rate = Rate8n, index = 0,
      isEnabled = False\<rparr>"

definition updateSortedNotes :: "Arpeggiator \<Rightarrow> Arpeggiator" where
  "updateSortedNotes a = a\<lparr>sortedNotes := sort (activeNotes a)\<rparr>"

definition setEnabled :: "bool \<Rightarrow> Arpeggiator \<Rightarrow> Arpeggiator" where
  "setEnabled enabled a =
     (let a1 = a\<lparr>isEnabled := enabled\<rparr>
      in if \<not> enabled then a1\<lparr>activeNotes := [], sortedNotes := []\<rparr> else a1)"

definition setRate :: "ArpRate \<Rightarrow> Arpeggiator \<Rightarrow> Arpeggiator" where
  "setRate r a = a\<lparr>rate := r\<rparr>"

definition setPattern :: "ArpPattern \<Rightarrow> Arpeggiator \<Rightarrow> Arpeggiator" where
  "setPattern p a = a\<lparr>pattern := p\<rparr>"

definition addNote :: "real \<Rightarrow> Arpeggiator \<Rightarrow> Arpeggiator" where
  "addNote freq a =
     updateSortedNotes
       (a\<lparr>activeNotes := (if freq \<in> set (activeNotes a) then activeNotes a
                          else activeNotes a @ [freq])\<rparr>)"

definition removeNote :: "real \<Rightarrow> Arpeggiator \<Rightarrow> Arpeggiator" where
  "removeNote freq a = updateSortedNotes (a\<lparr>activeNotes := removeAll freq (activeNotes a)\<rparr>)"

definition clear :: "Arpeggiator \<Rightarrow> Arpeggiator" where
  "clear a = updateSortedNotes (a\<lparr>activeNotes := []\<rparr>)"

text \<open>What a tick hands to the \<^verbatim>\<open>onNote\<close> callback: one frequency, or the whole array.\<close>

datatype Emission = Single real | Group "real list"

text \<open>
  \<^verbatim>\<open>tick\<close>. The argument \<open>rnd\<close> is the value \<^verbatim>\<open>Math.random()\<close> returns in this call, a number
  in \<open>[0, 1)\<close>. The result is what is passed to \<^verbatim>\<open>onNote\<close> (\<^term>\<open>None\<close> when the callback is
  not called) and the arpeggiator afterwards.
\<close>

definition tick :: "real \<Rightarrow> Arpeggiator \<Rightarrow> Emission option \<times> Arpeggiator" where
  "tick rnd a =
     (let notes = sortedNotes a; len = length notes
      in if \<not> isEnabled a \<or> len = 0 then (None, a)
         else case pattern a of
           Up \<Rightarrow>
             (let i = index a mod len
              in (Some (Single (notes ! i)), a\<lparr>index := i + 1\<rparr>))
         | Down \<Rightarrow>
             (let i = index a mod len; downIndex = len - 1 - i
              in (Some (Single (notes ! downIndex)), a\<lparr>index := i + 1\<rparr>))
         | UpDown \<Rightarrow>
             (if len = 1 then (Some (Single (notes ! 0)), a)
              else
                let cycleLen = len * 2 - 2; normIndex = index a mod cycleLen;
                    noteToPlay = (if normIndex < len then notes ! normIndex
                                  else notes ! (len - 1 - (normIndex - len + 1)))
                in (Some (Single noteToPlay), a\<lparr>index := index a + 1\<rparr>))
         | Random \<Rightarrow>
             (let r = nat \<lfloor>rnd * real len\<rfloor> in (Some (Single (notes ! r)), a))
         | Chord \<Rightarrow> (Some (Group notes), a))"

text \<open>
  A run of ticks with nothing else happening in between (the held notes stay as they are):
  one tick for each element of the list of random values; the result is the list of what
  was emitted.
\<close>

fun ticks :: "real list \<Rightarrow> Arpeggiator \<Rightarrow> Emission option list" where
  "ticks [] a = []"
| "ticks (rnd # rnds) a = (case tick rnd a of (e, a') \<Rightarrow> e # ticks rnds a')"

definition upDownPosition :: "nat \<Rightarrow> nat \<Rightarrow> nat" where
  \<comment> \<open>The position in \<^verbatim>\<open>sortedNotes\<close> that the pattern \<^verbatim>\<open>upDown\<close> plays at step \<open>k\<close>,
      for \<open>n\<close> held notes.\<close>
  "upDownPosition n k =
     (let normIndex = k mod (n * 2 - 2)
      in if normIndex < n then normIndex else n - 1 - (normIndex - n + 1))"

section \<open>The audio engine\<close>

text \<open>
  The class \<^verbatim>\<open>AudioEngine\<close>: the voices of the pointers, the arpeggiator and the looper.
  The nodes of the audio graph (buses, effects, filter, compressor, limiter, analyser) and the
  settings \<^verbatim>\<open>rootFreq\<close> and \<^verbatim>\<open>octaveRange\<close> take no part in what follows and are left out.
  \<^verbatim>\<open>Tone.now()\<close> and the outcome of the capture are inputs of the operations that read them.
\<close>

datatype VoiceType = Sine | Triangle | Sawtooth | Square | Pulse | Fmsynth | Amsynth
  | Membrane | Metal | Pluck | Duo | Noise

text \<open>
  A \<^verbatim>\<open>Voice\<close>: the kind of synth, the frequency last set, the value the gain ramps to, and
  whether \<^verbatim>\<open>triggerRelease\<close> has been called on it.
\<close>

record Voice =
  voiceType :: VoiceType
  frequency :: real
  gainTarget :: real
  released :: bool

definition new_Voice :: "VoiceType \<Rightarrow> Voice" where
  "new_Voice ty = \<lparr>voiceType = ty, frequency = 440, gainTarget = 0, released = False\<rparr>"

definition triggerAttack :: "real \<Rightarrow> real \<Rightarrow> Voice \<Rightarrow> Voice" where
  "triggerAttack freq vol v = v\<lparr>frequency := freq, gainTarget := vol\<rparr>"

definition setNote :: "real \<Rightarrow> real \<Rightarrow> Voice \<Rightarrow> Voice" where
  "setNote freq vol v = v\<lparr>frequency := freq, gainTarget := vol\<rparr>"

definition triggerRelease :: "Voice \<Rightarrow> Voice" where
  "triggerRelease v = v\<lparr>gainTarget := 0, released := True\<rparr>"

record TouchEventData =
  ev_time :: real
  ev_x :: real
  ev_y :: real
  ev_id :: int
  ev_color :: string

datatype AudioBuffer = AudioBuffer (duration: real)

record Player =
  buffer :: "AudioBuffer option"
  mute :: bool
  synced :: bool
  playerStarted :: bool

definition new_Player :: Player where
  "new_Player = \<lparr>buffer = None, mute = False, synced = False, playerStarted = False\<rparr>"

text \<open>
  A \<^verbatim>\<open>LoopTrack\<close>; \<open>volumeNode\<close> is the value the gain of the track's volume node ramps to.
  The random \<^verbatim>\<open>id\<close> of a track is left out.
\<close>

record LoopTrack =
  player :: Player
  volumeNode :: real
  audioBuffer :: "AudioBuffer option"
  ghostEvents :: "TouchEventData list"
  isRecording :: bool
  isPlaying :: bool
  color :: string

record Transport =
  loop :: bool
  loopStart :: real
  loopEnd :: real
  transportStarted :: bool

record AudioEngine =
  voices :: "int \<rightharpoonup> Voice list"
  currentVoiceType :: VoiceType
  tracks :: "LoopTrack list"
  recorderStarted :: bool
  masterLoopDuration :: "real option"
  transport :: Transport
  arpeggiator :: Arpeggiator
  activeArpTouches :: "int \<rightharpoonup> real list"
  fading :: "Voice list"

text \<open>
  \<open>fading\<close> collects the voices on which \<^verbatim>\<open>stopNote\<close> has called \<^verbatim>\<open>triggerRelease\<close>: they are out
  of the map \<open>voices\<close> and wait for the timer that disposes of them.
\<close>

definition new_LoopTrack :: "string \<Rightarrow> LoopTrack" where
  "new_LoopTrack c =
     \<lparr>player = new_Player, volumeNode = 7 / 10, audioBuffer = None, ghostEvents = [],
      isRecording = False, isPlaying = False, color = c\<rparr>"

definition new_AudioEngine :: AudioEngine where
  "new_AudioEngine =
     \<lparr>voices = Map.empty, currentVoiceType = Sine,
      tracks = map new_LoopTrack [''#00f0ff'', ''#ff0055'', ''#ccff00'', ''#aa00ff''],
      recorderStarted = False, masterLoopDuration = None,
      transport = \<lparr>loop = False, loopStart = 0, loopEnd = 0, transportStarted = True\<rparr>,
      arpeggiator = new_Arpeggiator, activeArpTouches = Map.empty, fading = []\<rparr>"

text \<open>The argument \<^verbatim>\<open>frequency: number | number[]\<close> of the note operations.\<close>

datatype FrequencyArg = One real | Many "real list"

fun freqs_of :: "FrequencyArg \<Rightarrow> real list" where
  "freqs_of (One f) = [f]"
| "freqs_of (Many fs) = fs"

definition setArpEnabled :: "bool \<Rightarrow> AudioEngine \<Rightarrow> AudioEngine" where
  "setArpEnabled enabled s = s\<lparr>arpeggiator := setEnabled enabled (arpeggiator s)\<rparr>"

definition removeOldFreqs :: "real list option \<Rightarrow> Arpeggiator \<Rightarrow> Arpeggiator" where
  \<comment> \<open>\<^verbatim>\<open>if (oldFreqs) oldFreqs.forEach(f => this.arpeggiator.removeNote(f))\<close>\<close>
  "removeOldFreqs oldFreqs a = (case oldFreqs of None \<Rightarrow> a | Some fs \<Rightarrow> fold removeNote fs a)"

definition updateNote :: "int \<Rightarrow> FrequencyArg \<Rightarrow> real \<Rightarrow> AudioEngine \<Rightarrow> AudioEngine" where
  "updateNote touchId freqArg volume s =
     (let freqs = freqs_of freqArg
      in if isEnabled (arpeggiator s) then
           s\<lparr>arpeggiator :=
                fold addNote freqs (removeOldFreqs (activeArpTouches s touchId) (arpeggiator s)),
             activeArpTouches := (activeArpTouches s)(touchId \<mapsto> freqs)\<rparr>
         else case voices s touchId of
           None \<Rightarrow> s
         | Some vs \<Rightarrow>
             s\<lparr>voices := (voices s)(touchId \<mapsto>
                  map (\<lambda>(i, voice). if i < length freqs then setNote (freqs ! i) volume voice
                                      else voice)
                      (zip [0..<length vs] vs))\<rparr>)"

definition startNote :: "int \<Rightarrow> FrequencyArg \<Rightarrow> real \<Rightarrow> AudioEngine \<Rightarrow> AudioEngine" where
  "startNote touchId freqArg volume s =
     (if voices s touchId \<noteq> None then updateNote touchId freqArg volume s
      else
        let freqs = freqs_of freqArg
        in if isEnabled (arpeggiator s) then
             s\<lparr>arpeggiator := fold addNote freqs (arpeggiator s),
               activeArpTouches := (activeArpTouches s)(touchId \<mapsto> freqs)\<rparr>
           else
             s\<lparr>voices := (voices s)(touchId \<mapsto>
                  map (\<lambda>f. triggerAttack f volume (new_Voice (currentVoiceType s))) freqs)\<rparr>)"

definition stopNote :: "int \<Rightarrow> AudioEngine \<Rightarrow> AudioEngine" where
  "stopNote touchId s =
     (let s1 = (if isEnabled (arpeggiator s) then
                  s\<lparr>arpeggiator := removeOldFreqs (activeArpTouches s touchId) (arpeggiator s),
                    activeArpTouches := (activeArpTouches s)(touchId := None)\<rparr>
                else s)
      in case voices s1 touchId of
           None \<Rightarrow> s1
         | Some vs \<Rightarrow>
             s1\<lparr>fading := fading s1 @ map triggerRelease vs,
                voices := (voices s1)(touchId := None)\<rparr>)"

subsection \<open>The looper\<close>

text \<open>
  \<^verbatim>\<open>this.tracks[trackIndex]\<close>: \<^verbatim>\<open>undefined\<close> (here \<^term>\<open>None\<close>) outside the array. Reading a
  property of \<^verbatim>\<open>undefined\<close> throws a \<^verbatim>\<open>TypeError\<close>; in an \<^verbatim>\<open>async\<close> method the promise
  returned is rejected with it.
\<close>

definition track_at :: "LoopTrack list \<Rightarrow> int \<Rightarrow> LoopTrack option" where
  "track_at ts trackIndex =
     (if 0 \<le> trackIndex \<and> trackIndex < int (length ts) then Some (ts ! nat trackIndex) else None)"

definition set_track :: "int \<Rightarrow> LoopTrack \<Rightarrow> AudioEngine \<Rightarrow> AudioEngine" where
  \<comment> \<open>The writes to the fields of the object \<^verbatim>\<open>track\<close>, which is an element of \<^verbatim>\<open>this.tracks\<close>.\<close>
  "set_track trackIndex track s = s\<lparr>tracks := (tracks s)[nat trackIndex := track]\<rparr>"

definition startRecording :: "int \<Rightarrow> AudioEngine \<Rightarrow> error + AudioEngine" where
  "startRecording trackIndex s =
     (if \<exists>t \<in> set (tracks s). isRecording t then Inr s
      else case track_at (tracks s) trackIndex of
        None \<Rightarrow> Inl TypeError
      | Some track \<Rightarrow>
          let track1 = track\<lparr>player := (player track)\<lparr>synced := False, playerStarted := False\<rparr>,
                             ghostEvents := [], isRecording := True\<rparr>
          in Inr ((set_track trackIndex track1 s)\<lparr>recorderStarted := True\<rparr>))"

definition recordTouchEvent ::
  "int \<Rightarrow> real \<Rightarrow> real \<Rightarrow> int \<Rightarrow> string \<Rightarrow> real \<Rightarrow> AudioEngine \<Rightarrow> error + AudioEngine" where
  \<comment> \<open>\<open>now\<close> is the value of \<^verbatim>\<open>Tone.now()\<close>.\<close>
  "recordTouchEvent trackIndex x y pid c now s =
     (case track_at (tracks s) trackIndex of
        None \<Rightarrow> Inl TypeError
      | Some track \<Rightarrow>
          if isRecording track then
            Inr (set_track trackIndex
                   (track\<lparr>ghostEvents := ghostEvents track @
                      [\<lparr>ev_time = now, ev_x = x, ev_y = y, ev_id = pid, ev_color = c\<rparr>]\<rparr>) s)
          else Inr s)"

text \<open>
  What the \<^verbatim>\<open>try\<close> block of \<^verbatim>\<open>stopRecording\<close> gets from the recorder: the loaded buffer, or an
  exception thrown by \<^verbatim>\<open>recorder.stop()\<close>, or one thrown while the buffer loads.
\<close>

datatype Capture = Captured AudioBuffer | StopThrows | LoadThrows

definition stopRecording :: "int \<Rightarrow> real \<Rightarrow> Capture \<Rightarrow> AudioEngine \<Rightarrow> error + AudioEngine" where
  "stopRecording trackIndex now capture s =
     (case track_at (tracks s) trackIndex of
        None \<Rightarrow> Inl TypeError
      | Some track \<Rightarrow>
          if \<not> isRecording track then Inr s
          else
            let track1 = track\<lparr>isRecording := False\<rparr>
            in case capture of
              StopThrows \<Rightarrow> Inr (set_track trackIndex track1 s)
            | LoadThrows \<Rightarrow> Inr ((set_track trackIndex track1 s)\<lparr>recorderStarted := False\<rparr>)
            | Captured buf \<Rightarrow>
                let startTime = now - duration buf;
                    s1 = (case masterLoopDuration s of
                            None \<Rightarrow>
                              s\<lparr>masterLoopDuration := Some (duration buf),
                                transport := (transport s)\<lparr>loop := True, loopStart := 0,
                                                           loopEnd := duration buf\<rparr>\<rparr>
                          | Some m \<Rightarrow> s);
                    events = (case masterLoopDuration s of
                                None \<Rightarrow>
                                  map (\<lambda>e. e\<lparr>ev_time := ev_time e - startTime\<rparr>) (ghostEvents track1)
                              | Some m \<Rightarrow>
                                  map (\<lambda>e. e\<lparr>ev_time := js_rem (ev_time e - startTime) m\<rparr>)
                                      (ghostEvents track1));
                    track2 = track1\<lparr>ghostEvents := events, audioBuffer := Some buf,
                                    player := (player track1)\<lparr>buffer := Some buf, synced := True,
                                                              playerStarted := True\<rparr>,
                                    isPlaying := True\<rparr>
                in Inr ((set_track trackIndex track2 s1)
                          \<lparr>recorderStarted := False,
                           transport := (transport s1)\<lparr>transportStarted := True\<rparr>\<rparr>))"

text \<open>
  In \<^verbatim>\<open>toggleTrackPlayback\<close> the test \<^verbatim>\<open>track.player.buffer\<close> reads the buffer object of the
  player, which the player has whether or not audio has been loaded into it: the test holds
  whenever it is reached.
\<close>

definition toggleTrackPlayback :: "int \<Rightarrow> AudioEngine \<Rightarrow> error + AudioEngine" where
  "toggleTrackPlayback trackIndex s =
     (case track_at (tracks s) trackIndex of
        None \<Rightarrow> Inl TypeError
      | Some track \<Rightarrow>
          if isPlaying track then
            Inr (set_track trackIndex
                   (track\<lparr>player := (player track)\<lparr>mute := True\<rparr>, isPlaying := False\<rparr>) s)
          else
            Inr (set_track trackIndex
                   (track\<lparr>player := (player track)\<lparr>mute := False\<rparr>, isPlaying := True\<rparr>) s))"

definition setTrackVolume :: "int \<Rightarrow> real \<Rightarrow> AudioEngine \<Rightarrow> error + AudioEngine" where
  "setTrackVolume trackIndex vol s =
     (case track_at (tracks s) trackIndex of
        None \<Rightarrow> Inl TypeError
      | Some track \<Rightarrow> Inr (set_track trackIndex (track\<lparr>volumeNode := vol\<rparr>) s))"

text \<open>
  The engine keeps a pointer in one mode only: with the arpeggiator on no pointer has
  voices, with the arpeggiator off no pointer is registered with it.
\<close>

definition one_mode :: "AudioEngine \<Rightarrow> bool" where
  "one_mode s =
     (if isEnabled (arpeggiator s) then voices s = Map.empty
      else activeArpTouches s = Map.empty)"

section \<open>States used as examples\<close>

definition held_three :: Arpeggiator where
  \<comment> \<open>The arpeggiator switched on, set to \<^verbatim>\<open>upDown\<close>, with three notes held.\<close>
  "held_three =
     addNote 330 (addNote 220 (addNote 440 (setPattern UpDown (setEnabled True new_Arpeggiator))))"

definition held_one :: Arpeggiator where
  "held_one = addNote 440 (setPattern UpDown (setEnabled True new_Arpeggiator))"

text \<open>
  Runs of the engine from its initial state. \<open>armed\<close>: track 0 records. \<open>armed_touched\<close>: a
  touch was logged at time 8. \<open>looped\<close>: the first recording was stopped at time 4 with a
  buffer of 4 seconds. \<open>rearmed\<close>: track 0 records again. \<open>second_armed\<close>: track 1 records
  over the loop.
\<close>

definition armed :: AudioEngine where
  "armed = projr (startRecording 0 new_AudioEngine)"

definition armed_touched :: AudioEngine where
  "armed_touched = projr (recordTouchEvent 0 (1 / 2) (1 / 2) 1 ''#00f0ff'' 8 armed)"

definition looped :: AudioEngine where
  "looped = projr (stopRecording 0 4 (Captured (AudioBuffer 4)) armed)"

definition rearmed :: AudioEngine where
  "rearmed = projr (startRecording 0 looped)"

definition second_armed :: AudioEngine where
  "second_armed = projr (startRecording 1 looped)"

definition second_touched :: AudioEngine where
  "second_touched = projr (recordTouchEvent 1 (1 / 2) (1 / 2) 1 ''#ff0055'' 7 second_armed)"

text \<open>
  \<open>holding\<close>: pointer 1 holds a note with the arpeggiator off. \<open>switched\<close>: the arpeggiator
  is then switched on. \<open>restarted\<close>: \<^verbatim>\<open>startNote\<close> comes again for pointer 1.
  \<open>arp_on\<close>: the arpeggiator switched on in the initial state.
\<close>

definition holding :: AudioEngine where
  "holding = startNote 1 (One 440) (4 / 5) new_AudioEngine"

definition switched :: AudioEngine where
  "switched = setArpEnabled True holding"

definition restarted :: AudioEngine where
  "restarted = startNote 1 (One 330) (1 / 2) switched"

definition arp_on :: AudioEngine where
  "arp_on = setArpEnabled True new_AudioEngine"

definition arp_held :: AudioEngine where
  \<comment> \<open>With the arpeggiator on, pointer 2 holds a note.\<close>
  "arp_held = startNote 2 (One 330) (1 / 2) arp_on"

text \<open>
  \<open>boundary_take\<close>: the first recording, with the touch logged at time 8, is stopped at
  time 8 with a buffer of 4 seconds. \<open>failed_retake\<close>: the second recording on track 0 is
  stopped at time 10 and the buffer fails to load.
\<close>

definition boundary_take :: "error + AudioEngine" where
  "boundary_take = stopRecording 0 8 (Captured (AudioBuffer 4)) armed_touched"

definition failed_retake :: "error + AudioEngine" where
  "failed_retake = stopRecording 0 10 LoadThrows rearmed"

section \<open>Properties of the quantizer and the chords\<close>

lemma js_round_of_int: "js_round (of_int k) = k"
  by (simp add: js_round_def)

lemma js_rem_int_nonneg: "0 \<le> a \<Longrightarrow> 0 < b \<Longrightarrow> js_rem_int a b = a mod b"
  by (cases "a = 0") (simp_all add: js_rem_int_def)

lemma js_trunc_of_int_div: "js_trunc (of_int q / 12) = (if 0 \<le> q then q div 12 else - ((- q) div 12))"
proof (cases "0 \<le> q")
  case True
  then show ?thesis
    using floor_divide_of_int_eq[of q 12, where ?'a = real] by (simp add: js_trunc_def)
next
  case False
  have "\<lceil>real_of_int q / 12\<rceil> = - \<lfloor>real_of_int (- q) / real_of_int 12\<rfloor>"
    by (simp add: ceiling_def)
  also have "\<dots> = - ((- q) div 12)"
    by (simp only: floor_divide_of_int_eq)
  finally show ?thesis using False by (simp add: js_trunc_def)
qed

lemma js_rem_of_int: "js_rem (of_int q) 12 = of_int (if 0 \<le> q then q mod 12 else - ((- q) mod 12))"
proof -
  have "q mod 12 = q - 12 * (q div 12)" "(- q) mod 12 = - q - 12 * ((- q) div 12)"
    by (simp_all add: minus_div_mult_eq_mod [symmetric] algebra_simps)
  then show ?thesis
    by (simp add: js_rem_def js_trunc_of_int_div)
qed

lemma js_rem_int_12: "js_rem_int a 12 = (if 0 \<le> a then a mod 12 else - ((- a) mod 12))"
  by (simp add: js_rem_int_def sgn_if)

lemma js_rem_int_small: "- 12 < a \<Longrightarrow> a < 12 \<Longrightarrow> js_rem_int a 12 = a"
  by (auto simp: js_rem_int_12)

lemma trunc_rem_bounds:
  fixes q :: int
  defines "b \<equiv> (if 0 \<le> q then q mod 12 else - ((- q) mod 12))"
  shows "- 12 < b" "b < 12" "(b + 12) mod 12 = q mod 12"
proof -
  have p: "0 \<le> q mod 12" "q mod 12 < 12" "0 \<le> (- q) mod 12" "(- q) mod 12 < 12"
    by simp_all
  show "- 12 < b" "b < 12" using p unfolding b_def by (auto split: if_splits)
  have "b mod 12 = q mod 12"
    unfolding b_def by (simp add: mod_minus_eq)
  then show "(b + 12) mod 12 = q mod 12" by simp
qed

lemma normalizedIndex_of_int: "normalizedIndex_of (of_int q) = q mod 12"
proof -
  define b where "b = (if 0 \<le> q then q mod 12 else - ((- q) mod 12))"
  have bb: "- 12 < b" "b < 12" "(b + 12) mod 12 = q mod 12"
    unfolding b_def by (rule trunc_rem_bounds)+
  have "(if b < 0 then b + 12 else b) = q mod 12"
  proof (cases "b < 0")
    case True
    have "(b + 12) mod 12 = b + 12"
      using True bb(1) by (intro mod_pos_pos_trivial) linarith+
    then show ?thesis unfolding if_P[OF True] using bb(3) by linarith
  next
    case False
    have "b mod 12 = b"
      using False bb(2) by (intro mod_pos_pos_trivial) linarith+
    moreover have "b mod 12 = q mod 12" using bb(3) by simp
    ultimately show ?thesis unfolding if_not_P[OF False] by linarith
  qed
  then show ?thesis
    unfolding normalizedIndex_of_def js_rem_of_int js_round_of_int Let_def b_def .
qed

lemma foldl_nearest_step:
  "foldl (nearest_step p) (Some \<bar>p - n\<bar>, n) xs =
     (let m = arg_min_list (\<lambda>i. \<bar>p - i\<bar>) (n # xs) in (Some \<bar>p - m\<bar>, m))"
proof (induction xs arbitrary: n)
  case Nil
  show ?case by simp
next
  case (Cons y ys)
  let ?f = "\<lambda>i. \<bar>p - i\<bar>"
  have le: "?f (arg_min_list ?f (y # ys)) \<le> ?f y"
    using f_arg_min_list_f[of "y # ys" ?f] by simp
  show ?case
  proof (cases "?f y < ?f n")
    case True
    then show ?thesis using Cons.IH[of y] le by (simp add: Let_def)
  next
    case False
    have "arg_min_list ?f (n # y # ys) = arg_min_list ?f (n # ys)"
      using False by (cases ys) (auto simp: Let_def)
    then show ?thesis using Cons.IH[of n] False by (simp add: Let_def)
  qed
qed

lemma nearest_is_arg_min:
  "xs \<noteq> [] \<Longrightarrow> snd (foldl (nearest_step p) (None, 0) xs) = arg_min_list (\<lambda>i. \<bar>p - i\<bar>) xs"
  by (cases xs) (simp_all add: foldl_nearest_step Let_def del: arg_min_list.simps)

lemma SCALES_nonempty: "SCALES sc \<noteq> []"
  by (cases sc) simp_all

lemma SCALES_range: "i \<in> set (SCALES sc) \<Longrightarrow> 0 \<le> i \<and> i < 12"
  by (cases sc) auto

lemma arg_min_hit:
  assumes "p \<in> set xs"
  shows "arg_min_list (\<lambda>i. \<bar>p - i\<bar>) xs = (p::int)"
proof -
  let ?f = "\<lambda>i. \<bar>p - i\<bar>"
  from assms have ne: "xs \<noteq> []" by auto
  have "?f (arg_min_list ?f xs) = Min (?f ` set xs)"
    using ne by (rule f_arg_min_list_f)
  also have "\<dots> \<le> ?f p" using assms by (intro Min_le) auto
  finally show ?thesis by simp
qed

lemma getNearestScaleNote_eq:
  "getNearestScaleNote s sc = \<lfloor>s / 12\<rfloor> * 12 + arg_min_list (\<lambda>i. \<bar>normalizedIndex_of s - i\<bar>) (SCALES sc)"
  by (simp add: getNearestScaleNote_def Let_def nearest_is_arg_min SCALES_nonempty)

lemma nearest_in_scale: "arg_min_list f (SCALES sc) \<in> set (SCALES sc)"
  by (rule arg_min_list_in) (rule SCALES_nonempty)

lemma getNearestScaleNote_mod:
  "getNearestScaleNote s sc mod 12 \<in> set (SCALES sc)"
proof -
  let ?m = "arg_min_list (\<lambda>i. \<bar>normalizedIndex_of s - i\<bar>) (SCALES sc)"
  have "?m \<in> set (SCALES sc)" by (rule nearest_in_scale)
  moreover from this have "0 \<le> ?m \<and> ?m < 12" by (rule SCALES_range)
  ultimately show ?thesis by (simp add: getNearestScaleNote_eq)
qed

lemma getNearestScaleNote_on_scale:
  assumes "q mod 12 \<in> set (SCALES sc)"
  shows "getNearestScaleNote (of_int q) sc = q"
proof -
  have "\<lfloor>real_of_int q / 12\<rfloor> = q div 12"
    using floor_divide_of_int_eq[of q 12, where ?'a = real] by simp
  then show ?thesis
    using assms by (simp add: getNearestScaleNote_eq normalizedIndex_of_int arg_min_hit)
qed

lemma semitones_of_pitch:
  assumes "0 < r"
  shows "12 * log 2 (r * 2 powr (real_of_int q / 12) / r) = of_int q"
  using assms by simp

lemma js_round_rem: "js_round (js_rem s 12) = js_round s - 12 * js_trunc (s / 12)"
proof -
  have "s - 12 * real_of_int (js_trunc (s / 12)) + 1 / 2 = (s + 1 / 2) + of_int (- 12 * js_trunc (s / 12))"
    by simp
  then have "\<lfloor>s - 12 * real_of_int (js_trunc (s / 12)) + 1 / 2\<rfloor> = \<lfloor>s + 1 / 2\<rfloor> + (- 12 * js_trunc (s / 12))"
    by (simp only: floor_add_int)
  then show ?thesis by (simp add: js_round_def js_rem_def)
qed

lemma js_rem_bounds:
  "(0 \<le> s \<longrightarrow> 0 \<le> js_rem s 12 \<and> js_rem s 12 < 12) \<and> (s < 0 \<longrightarrow> - 12 < js_rem s 12 \<and> js_rem s 12 \<le> 0)"
proof -
  define a where "a = real_of_int \<lfloor>s / 12\<rfloor>"
  define b where "b = real_of_int \<lceil>s / 12\<rceil>"
  have f: "12 * a \<le> s" "s < 12 * a + 12"
    unfolding a_def by linarith+
  have c: "s \<le> 12 * b" "12 * b < s + 12"
    unfolding b_def by linarith+
  have "js_rem s 12 = (if 0 \<le> s then s - 12 * a else s - 12 * b)"
    by (simp add: js_rem_def js_trunc_def a_def b_def)
  then show ?thesis using f c by auto
qed

lemma noteIndex_bounds:
  "(0 \<le> s \<longrightarrow> 0 \<le> js_round (js_rem s 12) \<and> js_round (js_rem s 12) \<le> 12)
   \<and> (s < 0 \<longrightarrow> - 12 \<le> js_round (js_rem s 12) \<and> js_round (js_rem s 12) \<le> 0)"
  using js_rem_bounds[of s] unfolding js_round_def by (auto; linarith)

lemma normalizedIndex_of_spec:
  assumes "js_round (js_rem s 12) \<noteq> 12"
  shows "normalizedIndex_of s = js_round s mod 12"
proof -
  define k where "k = js_round (js_rem s 12)"
  have kb: "- 12 \<le> k \<and> k < 12" using noteIndex_bounds[of s] assms by (cases "0 \<le> s") (auto simp: k_def)
  have "js_round s = k + 12 * js_trunc (s / 12)" by (simp add: k_def js_round_rem)
  then have "js_round s mod 12 = k mod 12" by simp
  also have "\<dots> = (if k < 0 then k + 12 else k)"
  proof (cases "k < 0")
    case True
    then have "(k + 12) mod 12 = k + 12" using kb by (intro mod_pos_pos_trivial) auto
    then show ?thesis using True by simp
  next
    case False
    then show ?thesis using kb by (simp add: mod_pos_pos_trivial)
  qed
  finally show ?thesis by (simp add: normalizedIndex_of_def k_def Let_def)
qed

lemma log2_lower:
  fixes x :: real
  assumes "0 < x" "2 ^ a \<le> x ^ b" "0 < b"
  shows "real a / real b \<le> log 2 x"
proof -
  have "real a = log 2 (2 ^ a)" by simp
  also have "\<dots> \<le> log 2 (x ^ b)" using assms by (subst log_le_cancel_iff) auto
  also have "\<dots> = real b * log 2 x" using assms by (simp add: log_nat_power)
  finally show ?thesis using assms by (simp add: field_simps)
qed

lemma log2_upper:
  fixes x :: real
  assumes "0 < x" "x ^ b < 2 ^ a" "0 < b"
  shows "log 2 x < real a / real b"
proof -
  have "real b * log 2 x = log 2 (x ^ b)" using assms by (simp add: log_nat_power)
  also have "\<dots> < log 2 (2 ^ a)" using assms by (subst log_less_cancel_iff) auto
  also have "\<dots> = real a" by simp
  finally show ?thesis using assms by (simp add: field_simps)
qed

lemma log2_lower_strict:
  fixes x :: real
  assumes "0 < x" "2 ^ a < x ^ b" "0 < b"
  shows "real a / real b < log 2 x"
proof -
  have "real a = log 2 (2 ^ a)" by simp
  also have "\<dots> < log 2 (x ^ b)" using assms by (subst log_less_cancel_iff) auto
  also have "\<dots> = real b * log 2 x" using assms by (simp add: log_nat_power)
  finally show ?thesis using assms by (simp add: field_simps)
qed

lemma semitones_300: "3 / 2 \<le> 12 * log 2 (300 / 261.63) \<and> 12 * log 2 (300 / 261.63) < 5 / 2"
proof -
  have "real 1 / real 8 \<le> log 2 (300 / 261.63)"
    by (rule log2_lower) (simp_all add: power_divide)
  moreover have "log 2 (300 / 261.63) < real 5 / real 24"
    by (rule log2_upper) (simp_all add: power_divide)
  ultimately show ?thesis by simp
qed

lemma semitones_195: "23 / 2 \<le> 12 * log 2 (195 / 100) \<and> 12 * log 2 (195 / 100) < 12"
proof -
  have "real 23 / real 24 \<le> log 2 (195 / 100)"
    by (rule log2_lower) (simp_all add: power_divide)
  moreover have "log 2 (195 / 100) < real 1 / real 1"
    by (rule log2_upper) (simp_all add: power_divide)
  ultimately show ?thesis by simp
qed

lemma nearest_small:
  assumes "0 \<le> s" "s < 12"
  shows "\<lfloor>s / 12\<rfloor> = 0" "js_rem s 12 = s"
proof -
  show f: "\<lfloor>s / 12\<rfloor> = 0" using assms by (simp add: floor_eq_iff)
  show "js_rem s 12 = s" using assms f by (simp add: js_rem_def js_trunc_def)
qed

lemma normalizedIndex_300: "normalizedIndex_of (12 * log 2 (300 / 261.63)) = 2"
proof -
  define s :: real where "s = 12 * log 2 (300 / 261.63)"
  have b: "3 / 2 \<le> s" "s < 5 / 2" using semitones_300 by (simp_all add: s_def)
  have r: "js_round s = 2" using b by (simp add: js_round_def floor_eq_iff)
  have "normalizedIndex_of s = 2" using nearest_small[of s] b r by (simp add: normalizedIndex_of_def)
  then show ?thesis by (simp only: s_def)
qed

lemma quantize_300: "quantizeFrequency 300 261.63 Major = 261.63 * 2 powr (2 / 12)"
proof -
  define s :: real where "s = 12 * log 2 (300 / 261.63)"
  have b: "3 / 2 \<le> s" "s < 5 / 2" using semitones_300 by (simp_all add: s_def)
  have "normalizedIndex_of s = 2" using normalizedIndex_300 by (simp only: s_def)
  then have "getNearestScaleNote s Major = 2"
    using nearest_small(1)[of s] b by (simp add: getNearestScaleNote_def)
  then have "getNearestScaleNote (12 * log 2 (300 / 261.63)) Major = 2"
    by (simp only: s_def)
  then show ?thesis unfolding quantizeFrequency_def Let_def by simp
qed

lemma quantize_300_off_scale: "quantizeFrequency 300 261.63 Major \<noteq> 300"
proof -
  have "real 1 / real 6 < log 2 (300 / 261.63)"
    by (rule log2_lower_strict) (simp_all add: power_divide)
  then have "(1::real) / 6 < log 2 (300 / 261.63)" by simp
  then have "2 powr (1 / 6) < (300 / 261.63 :: real)"
    by (subst (asm) less_log_iff) simp_all
  then have lt: "261.63 * 2 powr (1 / 6) < (300 :: real)"
    by (simp add: field_simps)
  show ?thesis
  proof
    assume "quantizeFrequency 300 261.63 Major = 300"
    then have "(261.63 :: real) * 2 powr (2 / 12) = 300"
      by (simp only: quantize_300)
    with lt show False by simp
  qed
qed

lemma normalizedIndex_12_iff: "normalizedIndex_of s = 12 \<longleftrightarrow> js_round (js_rem s 12) = 12"
  using noteIndex_bounds[of s] by (cases "0 \<le> s") (auto simp: normalizedIndex_of_def Let_def)

lemma quantize_195:
  "quantizeFrequency 195 100 Major = 100 * 2 powr (11 / 12) \<and> quantize_spec 195 100 Major = 100"
proof -
  define s :: real where "s = 12 * log 2 (195 / 100)"
  have b: "23 / 2 \<le> s" "s < 12" using semitones_195 by (simp_all add: s_def)
  have r: "js_round s = 12" using b by (simp add: js_round_def floor_eq_iff)
  have "normalizedIndex_of s = 12" using nearest_small[of s] b r by (simp add: normalizedIndex_of_def)
  then have "getNearestScaleNote s Major = 11"
    using nearest_small(1)[of s] b by (simp add: getNearestScaleNote_def)
  then have "getNearestScaleNote (12 * log 2 (195 / 100)) Major = 11"
    by (simp only: s_def)
  then have 1: "quantizeFrequency 195 100 Major = 100 * 2 powr (11 / 12)"
    unfolding quantizeFrequency_def Let_def by simp
  have fl: "\<lfloor>s / 12\<rfloor> = 0" using nearest_small(1)[of s] b by simp
  have "\<lfloor>12 * log 2 (195 / 100) / 12\<rfloor> = (0::int)" "js_round (12 * log 2 (195 / 100)) = 12"
    using fl r by (simp_all only: s_def)
  then have 2: "quantize_spec 195 100 Major = 100"
    unfolding quantize_spec_def Let_def by simp
  show ?thesis using 1 2 by simp
qed

lemma pow_11_12_ne: "(100::real) * 2 powr (11 / 12) \<noteq> 100"
proof -
  have "(2::real) powr 0 < 2 powr (11 / 12)" by (rule powr_less_mono) simp_all
  then show ?thesis by simp
qed

lemma upt_7: "[0..<7] = [0,1,2,3,4,5,6]" "[0..<5] = [0,1,2,3,4]" "[0..<6] = [0,1,2,3,4,5]"
  "[0..<12] = [0,1,2,3,4,5,6,7,8,9,10,11]"
  by code_simp+

lemma findIntervalIndex_hit:
  assumes "p \<in> set (SCALES sc)"
  shows "findIntervalIndex (SCALES sc) p = int (position_of (SCALES sc) p)"
  using assms
  by (cases sc; simp only: SCALES.simps list.set insert_iff empty_iff; elim disjE;
      simp add: findIntervalIndex_def upt_7 position_of_def)

lemma position_of_nth: "p \<in> set xs \<Longrightarrow> position_of xs p < length xs \<and> xs ! position_of xs p = p"
  unfolding position_of_def by (induction xs) auto

lemma normBaseMod_eq:
  "js_rem_int (js_rem_int (js_round (js_rem (of_int q) 12)) 12 + 12) 12 = q mod 12"
proof -
  define b where "b = (if 0 \<le> q then q mod 12 else - ((- q) mod 12))"
  have b: "js_round (js_rem (of_int q) 12) = b"
    unfolding js_rem_of_int js_round_of_int b_def ..
  have bb: "- 12 < b" "b < 12" "(b + 12) mod 12 = q mod 12"
    unfolding b_def by (rule trunc_rem_bounds)+
  have "js_rem_int b 12 = b" using bb by (simp add: js_rem_int_small)
  moreover have "js_rem_int (b + 12) 12 = (b + 12) mod 12"
    using bb by (simp add: js_rem_int_nonneg)
  ultimately show ?thesis using bb by (simp add: b)
qed

lemma quantize_fixed_on_scale:
  assumes "0 < r" "q mod 12 \<in> set (SCALES sc)"
  shows "quantizeFrequency (r * 2 powr (real_of_int q / 12)) r sc = r * 2 powr (real_of_int q / 12)"
proof (cases "sc = Chromatic")
  case True
  then show ?thesis by (simp add: quantizeFrequency_def)
next
  case False
  have "getNearestScaleNote (of_int q) sc = q"
    using assms(2) by (rule getNearestScaleNote_on_scale)
  then show ?thesis
    using False semitones_of_pitch[OF assms(1), of q] by (simp add: quantizeFrequency_def)
qed

lemma chordDegree_on_scale:
  assumes "0 \<le> i" "0 \<le> off"
  shows "\<exists>t. t mod 12 \<in> set (SCALES sc) \<and> chordDegree r (SCALES sc) oct i off = r * 2 powr (real_of_int t / 12)"
proof -
  let ?n = "int (length (SCALES sc))"
  have n: "0 < ?n" using SCALES_nonempty[of sc] by simp
  define e where "e = js_rem_int (i + off) ?n"
  have e: "0 \<le> e" "e < ?n"
    using assms n by (simp_all add: e_def js_rem_int_nonneg)
  then have mem: "SCALES sc ! nat e \<in> set (SCALES sc)" by (intro nth_mem) linarith
  define t where "t = SCALES sc ! nat e + (oct + \<lfloor>real_of_int (i + off) / real (length (SCALES sc))\<rfloor>) * 12"
  have "t = SCALES sc ! nat e + 12 * (oct + \<lfloor>real_of_int (i + off) / real (length (SCALES sc))\<rfloor>)"
    by (simp add: t_def)
  then have "t mod 12 = (SCALES sc ! nat e) mod 12"
    by (simp only: mod_mult_self2)
  then have tm: "t mod 12 = SCALES sc ! nat e"
    using SCALES_range[OF mem] by (simp add: mod_pos_pos_trivial)
  have cd: "chordDegree r (SCALES sc) oct i off = r * 2 powr (real_of_int t / 12)"
    by (simp add: chordDegree_def Let_def t_def e_def)
  show ?thesis
    by (intro exI[of _ t] conjI) (simp_all only: tm mem cd)
qed

lemma triad_expand:
  assumes "sc \<noteq> Chromatic"
  shows "\<exists>i oct. 0 \<le> i \<and> getChordFrequencies f r sc Triad = map (chordDegree r (SCALES sc) oct i) [0, 2, 4]
      \<and> chordDegree r (SCALES sc) oct i 0 = quantizeFrequency f r sc"
proof -
  define s where "s = 12 * log 2 (f / r)"
  define q where "q = getNearestScaleNote s sc"
  define ni where "ni = arg_min_list (\<lambda>i. \<bar>normalizedIndex_of s - i\<bar>) (SCALES sc)"
  have q: "q = \<lfloor>s / 12\<rfloor> * 12 + ni" by (simp add: q_def ni_def getNearestScaleNote_eq)
  have ni: "ni \<in> set (SCALES sc)" unfolding ni_def by (rule nearest_in_scale)
  have nib: "0 \<le> ni \<and> ni < 12" using ni by (rule SCALES_range)
  have qm: "q mod 12 = ni" using nib by (simp add: q)
  have qd: "\<lfloor>real_of_int q / 12\<rfloor> = \<lfloor>s / 12\<rfloor>"
  proof -
    have "\<lfloor>real_of_int q / 12\<rfloor> = q div 12"
      using floor_divide_of_int_eq[of q 12, where ?'a = real] by simp
    also have "\<dots> = \<lfloor>s / 12\<rfloor>" using nib by (simp add: q)
    finally show ?thesis .
  qed
  define i where "i = position_of (SCALES sc) ni"
  have i: "i < length (SCALES sc)" "findIntervalIndex (SCALES sc) ni = int i" "SCALES sc ! i = ni"
    using findIntervalIndex_hit[OF ni] position_of_nth[OF ni] by (simp_all add: i_def)
  have chord: "getChordFrequencies f r sc Triad = map (chordDegree r (SCALES sc) \<lfloor>s / 12\<rfloor> (int i)) [0, 2, 4]"
    using assms i(2)
    by (simp add: getChordFrequencies_def Let_def normBaseMod_eq qd
        s_def [symmetric] q_def [symmetric] qm)
  have "js_rem_int (int i) (int (length (SCALES sc))) = int i mod int (length (SCALES sc))"
    by (rule js_rem_int_nonneg) (use i(1) SCALES_nonempty[of sc] in simp_all)
  also have "\<dots> = int i"
    by (rule mod_pos_pos_trivial) (use i(1) in simp_all)
  finally have "js_rem_int (int i) (int (length (SCALES sc))) = int i" .
  moreover have "\<lfloor>real_of_int (int i) / real (length (SCALES sc))\<rfloor> = 0"
    using i(1) by (simp add: floor_divide_of_nat_eq)
  ultimately have "chordDegree r (SCALES sc) \<lfloor>s / 12\<rfloor> (int i) 0 = r * 2 powr (real_of_int q / 12)"
    using i(3) by (simp add: chordDegree_def Let_def q add.commute)
  also have "\<dots> = quantizeFrequency f r sc"
    using assms by (simp add: quantizeFrequency_def q_def s_def)
  finally show ?thesis using chord by (intro exI[of _ "int i"] exI[of _ "\<lfloor>s / 12\<rfloor>"]) simp
qed

section \<open>Where the quantizer and its specification meet\<close>

lemma normalizedIndex_12_rem:
  "normalizedIndex_of s = 12 \<longleftrightarrow> 23 / 2 \<le> js_rem s 12"
proof -
  have "js_rem s 12 < 12" using js_rem_bounds[of s] by (cases "0 \<le> s") auto
  then have "js_round (js_rem s 12) = 12 \<longleftrightarrow> 23 / 2 \<le> js_rem s 12"
    unfolding js_round_def floor_eq_iff by auto
  then show ?thesis by (simp add: normalizedIndex_12_iff)
qed

lemma quantize_agrees_below_12:
  assumes "normalizedIndex_of (12 * log 2 (freq / rootFreq)) \<noteq> 12"
  shows "quantizeFrequency freq rootFreq scale = quantize_spec freq rootFreq scale"
proof -
  define s where "s = 12 * log 2 (freq / rootFreq)"
  from assms have "js_round (js_rem s 12) \<noteq> 12" by (simp add: normalizedIndex_12_iff s_def)
  then have "normalizedIndex_of s = js_round s mod 12" by (rule normalizedIndex_of_spec)
  then show ?thesis
    by (simp add: quantizeFrequency_def quantize_spec_def Let_def getNearestScaleNote_eq
        s_def [symmetric])
qed

lemma nearest_to_12_not_root:
  assumes "sc \<noteq> Chromatic"
  shows "arg_min_list (\<lambda>i. \<bar>12 - i\<bar>) (SCALES sc) \<noteq> arg_min_list (\<lambda>i. \<bar>0 - i\<bar>) (SCALES sc)"
  using assms by (cases sc) simp_all

lemma quantize_differs_at_12:
  assumes "0 < rootFreq" "scale \<noteq> Chromatic"
    and "normalizedIndex_of (12 * log 2 (freq / rootFreq)) = 12"
  shows "quantizeFrequency freq rootFreq scale \<noteq> quantize_spec freq rootFreq scale"
proof
  define s where "s = 12 * log 2 (freq / rootFreq)"
  define a where "a = arg_min_list (\<lambda>i. \<bar>12 - i\<bar>) (SCALES scale)"
  define b where "b = arg_min_list (\<lambda>i. \<bar>0 - i\<bar>) (SCALES scale)"
  assume eq: "quantizeFrequency freq rootFreq scale = quantize_spec freq rootFreq scale"
  have n: "normalizedIndex_of s = 12" using assms(3) by (simp add: s_def)
  then have "js_round (js_rem s 12) = 12" by (simp add: normalizedIndex_12_iff)
  then have "js_round s = 12 + 12 * js_trunc (s / 12)" by (simp add: js_round_rem)
  then have p: "js_round s mod 12 = 0" by simp
  have 1: "quantizeFrequency freq rootFreq scale
      = rootFreq * 2 powr (real_of_int (\<lfloor>s / 12\<rfloor> * 12 + a) / 12)"
    using assms(2) n
    by (simp add: quantizeFrequency_def Let_def getNearestScaleNote_eq s_def [symmetric] a_def)
  have 2: "quantize_spec freq rootFreq scale
      = rootFreq * 2 powr (real_of_int (\<lfloor>s / 12\<rfloor> * 12 + b) / 12)"
    using assms(2) p
    by (simp add: quantize_spec_def Let_def s_def [symmetric] b_def)
  from eq have "(2::real) powr (real_of_int (\<lfloor>s / 12\<rfloor> * 12 + a) / 12)
      = 2 powr (real_of_int (\<lfloor>s / 12\<rfloor> * 12 + b) / 12)"
    unfolding 1 2 using assms(1) by simp
  then have "real_of_int (\<lfloor>s / 12\<rfloor> * 12 + a) / 12 = real_of_int (\<lfloor>s / 12\<rfloor> * 12 + b) / 12"
    by (simp only: powr_inj)
  then have "a = b" by simp
  then show False using nearest_to_12_not_root[OF assms(2)] by (simp add: a_def b_def)
qed

lemma normalizedIndex_195: "normalizedIndex_of (12 * log 2 (195 / 100)) = 12"
proof -
  define s :: real where "s = 12 * log 2 (195 / 100)"
  have b: "23 / 2 \<le> s" "s < 12" using semitones_195 by (simp_all add: s_def)
  have r: "js_round s = 12" using b by (simp add: js_round_def floor_eq_iff)
  have "normalizedIndex_of s = 12" using nearest_small[of s] b r by (simp add: normalizedIndex_of_def)
  then show ?thesis by (simp only: s_def)
qed

section \<open>The claims about the quantizer\<close>

text \<open>
  C3 holds of the specified computation and not of the code. At \<open>freq = 195\<close>,
  \<open>rootFreq = 100\<close> and the major scale the offset is about 11.56 semitones, so the octave
  is 0 and the rounded position is 12. The specified position \<open>round s mod 12\<close> is 0, its
  interval is 0 and the result 100. The code wraps negative positions only: it keeps
  position 12, whose nearest major interval is 11, and returns \<open>100 * 2 ^ (11 / 12)\<close>. The
  normalisation in \<^verbatim>\<open>getChordFrequencies\<close>, \<^verbatim>\<open>((x % 12) + 12) % 12\<close>, does map 12 to 0.
\<close>

theorem quantize_wrap_missed:
  "normalizedIndex_of (12 * log 2 (195 / 100)) = 12
   \<and> quantizeFrequency 195 100 Major = 100 * 2 powr (11 / 12)
   \<and> quantize_spec 195 100 Major = 100
   \<and> quantizeFrequency 195 100 Major \<noteq> quantize_spec 195 100 Major
   \<and> js_rem_int (js_rem_int 12 12 + 12) 12 = 0"
proof -
  have "js_rem_int (js_rem_int 12 12 + 12) 12 = 0"
    by (simp add: js_rem_int_def)
  then show ?thesis
    using normalizedIndex_195 quantize_195 pow_11_12_ne by simp
qed

text \<open>
  C8: \<open>quantizeFrequency\<close> is idempotent, for every frequency and root above 0 and every
  scale.
\<close>

theorem quantize_idempotent:
  assumes "0 < f" "0 < r"
  shows "quantizeFrequency (quantizeFrequency f r sc) r sc = quantizeFrequency f r sc"
proof (cases "sc = Chromatic")
  case True
  then show ?thesis by (simp add: quantizeFrequency_def)
next
  case False
  define q where "q = getNearestScaleNote (12 * log 2 (f / r)) sc"
  have q: "quantizeFrequency f r sc = r * 2 powr (of_int q / 12)"
    using False by (simp add: quantizeFrequency_def q_def)
  have "q mod 12 \<in> set (SCALES sc)"
    unfolding q_def by (rule getNearestScaleNote_mod)
  then have "getNearestScaleNote (of_int q) sc = q"
    by (rule getNearestScaleNote_on_scale)
  then have "quantizeFrequency (r * 2 powr (of_int q / 12)) r sc = r * 2 powr (of_int q / 12)"
    using False semitones_of_pitch[OF assms(2), of q] by (simp add: quantizeFrequency_def)
  then show ?thesis by (simp add: q)
qed


theorem quantize_idempotent_witness:
  "(0::real) < 440 \<and> (0::real) < 261.63
   \<and> quantizeFrequency (quantizeFrequency 440 261.63 Major) 261.63 Major
       = quantizeFrequency 440 261.63 Major"
proof -
  have h: "(0::real) < 440" "(0::real) < 261.63" by simp_all
  show ?thesis using h quantize_idempotent[OF h, of Major] by blast
qed

section \<open>The claims about the chords\<close>

section \<open>The chord function on strings and on the two types\<close>














text \<open>
  C10: under a scale that is not chromatic, for \<open>baseFreq > 0\<close> and \<open>rootFreq > 0\<close>, the triad
  has three frequencies and its first one is \<open>quantizeFrequency baseFreq rootFreq scale\<close>; when
  that differs from \<open>baseFreq\<close> (the base note is not on the scale) the chord does not contain
  \<open>baseFreq\<close>. For every other chord type the first frequency is \<open>baseFreq\<close> itself.
\<close>

theorem triad_rooted_on_quantized:
  assumes "scale \<noteq> Chromatic" "0 < baseFreq" "0 < rootFreq"
  shows "length (getChordFrequencies baseFreq rootFreq scale Triad) = 3
     \<and> hd (getChordFrequencies baseFreq rootFreq scale Triad) = quantizeFrequency baseFreq rootFreq scale
     \<and> (quantizeFrequency baseFreq rootFreq scale \<noteq> baseFreq
          \<longrightarrow> baseFreq \<notin> set (getChordFrequencies baseFreq rootFreq scale Triad))
     \<and> (\<forall>scale' chordType. chordType \<noteq> Triad
          \<longrightarrow> hd (getChordFrequencies baseFreq rootFreq scale' chordType) = baseFreq)"
proof -
  obtain i oct where io: "0 \<le> i"
    "getChordFrequencies baseFreq rootFreq scale Triad = map (chordDegree rootFreq (SCALES scale) oct i) [0, 2, 4]"
    "chordDegree rootFreq (SCALES scale) oct i 0 = quantizeFrequency baseFreq rootFreq scale"
    using triad_expand[OF assms(1)] by blast
  have 1: "length (getChordFrequencies baseFreq rootFreq scale Triad) = 3" by (simp add: io(2))
  have 2: "hd (getChordFrequencies baseFreq rootFreq scale Triad) = quantizeFrequency baseFreq rootFreq scale"
    by (simp add: io(2) io(3))
  have 3: "baseFreq \<notin> set (getChordFrequencies baseFreq rootFreq scale Triad)"
    if ne: "quantizeFrequency baseFreq rootFreq scale \<noteq> baseFreq"
  proof
    assume "baseFreq \<in> set (getChordFrequencies baseFreq rootFreq scale Triad)"
    then have "baseFreq \<in> chordDegree rootFreq (SCALES scale) oct i ` set [0, 2, 4]"
      by (simp only: io(2) set_map)
    then obtain off where mem: "off \<in> set [0, 2, 4]"
      and off2: "baseFreq = chordDegree rootFreq (SCALES scale) oct i off"
      by blast
    from mem have off1: "0 \<le> off" by auto
    note off = off1 off2
    obtain t where t: "t mod 12 \<in> set (SCALES scale)"
        "chordDegree rootFreq (SCALES scale) oct i off = rootFreq * 2 powr (real_of_int t / 12)"
      using chordDegree_on_scale[OF io(1) off(1)] by blast
    have "quantizeFrequency baseFreq rootFreq scale = baseFreq"
      unfolding off(2) t(2) using assms(3) t(1) by (rule quantize_fixed_on_scale)
    with ne show False by simp
  qed
  have 4: "hd (getChordFrequencies baseFreq rootFreq scale' chordType) = baseFreq" if "chordType \<noteq> Triad"
    for scale' chordType
    using that by (cases chordType) (simp_all add: getChordFrequencies_def)
  show ?thesis using 1 2 3 4 by blast
qed


theorem triad_rooted_on_quantized_witness:
  "Major \<noteq> Chromatic \<and> (0::real) < 300 \<and> (0::real) < 261.63
   \<and> quantizeFrequency 300 261.63 Major \<noteq> 300 \<and> Maj7 \<noteq> Triad
   \<and> length (getChordFrequencies 300 261.63 Major Triad) = 3
   \<and> hd (getChordFrequencies 300 261.63 Major Triad) = quantizeFrequency 300 261.63 Major
   \<and> 300 \<notin> set (getChordFrequencies 300 261.63 Major Triad)
   \<and> hd (getChordFrequencies 300 261.63 Dorian Maj7) = 300"
proof -
  have h: "Major \<noteq> Chromatic" "(0::real) < 300" "(0::real) < 261.63" "Maj7 \<noteq> Triad"
    by simp_all
  show ?thesis
    using h quantize_300_off_scale triad_rooted_on_quantized[OF h(1,2,3)] by blast
qed

section \<open>Properties of the arpeggiator\<close>

lemma upDownPosition_less: "2 \<le> n \<Longrightarrow> upDownPosition n k < n"
  by (auto simp: upDownPosition_def Let_def)

lemma upDownPosition_period: "upDownPosition n (k + (n * 2 - 2)) = upDownPosition n k"
  by (simp add: upDownPosition_def)

lemma upDownPosition_step:
  assumes "2 \<le> n"
  shows "upDownPosition n (Suc k) \<noteq> upDownPosition n k"
proof -
  define c where "c = n * 2 - 2"
  define m where "m = k mod c"
  have c: "2 \<le> c" "c + 2 = n * 2" using assms by (simp_all add: c_def)
  have m: "m < c" using c by (simp add: m_def)
  have s: "Suc k mod c = (if Suc m = c then 0 else Suc m)"
    unfolding m_def by (simp add: mod_Suc)
  have "upDownPosition n k = (if m < n then m else n - 1 - (m - n + 1))"
    by (simp add: upDownPosition_def c_def m_def)
  moreover have "upDownPosition n (Suc k) =
      (if Suc m = c then 0 else if Suc m < n then Suc m else n - 1 - (Suc m - n + 1))"
    using assms by (simp add: upDownPosition_def c_def [symmetric] s)
  ultimately show ?thesis using c m assms by (auto split: if_splits)
qed

lemma upDownPosition_cycle:
  assumes "2 \<le> n" "k mod (n * 2 - 2) = 0"
  shows "map (\<lambda>j. upDownPosition n (k + j)) [0..<n * 2 - 2] = [0..<n] @ rev [1..<n - 1]"
proof (rule nth_equalityI)
  show "length (map (\<lambda>j. upDownPosition n (k + j)) [0..<n * 2 - 2]) = length ([0..<n] @ rev [1..<n - 1])"
    using assms(1) by simp
next
  fix i
  assume "i < length (map (\<lambda>j. upDownPosition n (k + j)) [0..<n * 2 - 2])"
  then have i: "i < n * 2 - 2" by simp
  have "(k + i) mod (n * 2 - 2) = i"
    using assms(2) i by (simp add: mod_add_left_eq [symmetric])
  then have p: "upDownPosition n (k + i) = (if i < n then i else n - 1 - (i - n + 1))"
    by (simp add: upDownPosition_def)
  show "map (\<lambda>j. upDownPosition n (k + j)) [0..<n * 2 - 2] ! i = ([0..<n] @ rev [1..<n - 1]) ! i"
  proof (cases "i < n")
    case True
    then show ?thesis using i p by (simp add: nth_append)
  next
    case False
    then have "([0..<n] @ rev [1..<n - 1]) ! i = rev [1..<n - 1] ! (i - n)"
      by (simp add: nth_append)
    also have "\<dots> = [1..<n - 1] ! (n - 2 - Suc (i - n))"
      using False i by (subst rev_nth) simp_all
    also have "\<dots> = n - 1 - (i - n + 1)"
      using False i by simp
    finally show ?thesis using i p False by simp
  qed
qed

lemma tick_upDown:
  assumes "isEnabled a" "pattern a = UpDown" "2 \<le> length (sortedNotes a)"
  shows "tick rnd a =
    (Some (Single (sortedNotes a ! upDownPosition (length (sortedNotes a)) (index a))),
     a\<lparr>index := index a + 1\<rparr>)"
  using assms by (auto simp: tick_def upDownPosition_def Let_def)

lemma tick_upDown_single:
  assumes "isEnabled a" "pattern a = UpDown" "length (sortedNotes a) = 1"
  shows "tick rnd a = (Some (Single (sortedNotes a ! 0)), a)"
  using assms by (auto simp: tick_def Let_def)

lemma ticks_upDown_single:
  assumes "isEnabled a" "pattern a = UpDown" "length (sortedNotes a) = 1"
  shows "ticks rnds a = replicate (length rnds) (Some (Single (sortedNotes a ! 0)))"
  using assms by (induction rnds) (simp_all add: tick_upDown_single)

lemma ticks_upDown:
  assumes "isEnabled a" "pattern a = UpDown" "2 \<le> length (sortedNotes a)"
  shows "ticks rnds a =
    map (\<lambda>k. Some (Single (sortedNotes a ! upDownPosition (length (sortedNotes a)) (index a + k))))
      [0..<length rnds]"
  using assms
proof (induction rnds arbitrary: a)
  case Nil
  show ?case by simp
next
  case (Cons rnd rnds)
  let ?a' = "a\<lparr>index := index a + 1\<rparr>"
  have "ticks rnds ?a' =
    map (\<lambda>k. Some (Single (sortedNotes ?a' ! upDownPosition (length (sortedNotes ?a')) (index ?a' + k))))
      [0..<length rnds]"
    using Cons.prems by (intro Cons.IH) simp_all
  then have "ticks rnds ?a' =
    map (\<lambda>k. Some (Single (sortedNotes a ! upDownPosition (length (sortedNotes a)) (index a + Suc k))))
      [0..<length rnds]"
    by simp
  then show ?case
    using Cons.prems by (simp add: tick_upDown upt_conv_Cons map_Suc_upt [symmetric] del: upt_Suc)
qed

lemma held_three_eq:
  "held_three = \<lparr>activeNotes = [440, 220, 330], sortedNotes = [220, 330, 440],
     pattern = UpDown, rate = Rate8n, index = 0, isEnabled = True\<rparr>"
  by (simp add: held_three_def addNote_def updateSortedNotes_def setPattern_def setEnabled_def
      new_Arpeggiator_def)

lemma held_one_eq:
  "held_one = \<lparr>activeNotes = [440], sortedNotes = [440],
     pattern = UpDown, rate = Rate8n, index = 0, isEnabled = True\<rparr>"
  by (simp add: held_one_def addNote_def updateSortedNotes_def setPattern_def setEnabled_def
      new_Arpeggiator_def)

section \<open>The claim about the pattern upDown\<close>

text \<open>
  C6: the arpeggiator is on, the pattern is \<^verbatim>\<open>upDown\<close>, and \<open>n\<close> notes are held (without
  duplicates, sorted) and stay held over a run of ticks. If \<open>n = 1\<close> every tick emits the
  single note. If \<open>n \<ge> 2\<close>: the emitted sequence has period \<open>2 * n - 2\<close>; a cycle that
  starts where the step index is a multiple of \<open>2 * n - 2\<close> emits the notes at the sorted
  positions \<open>0, 1, \<dots>, n - 1, n - 2, \<dots>, 1\<close>; and two consecutive ticks never emit the
  same note.
\<close>

theorem upDown_cycle:
  assumes "isEnabled a" "pattern a = UpDown"
    and "distinct (activeNotes a)" "sortedNotes a = sort (activeNotes a)"
    and "n = length (sortedNotes a)"
  shows "(n = 1 \<longrightarrow> ticks rnds a = replicate (length rnds) (Some (Single (sortedNotes a ! 0))))
    \<and> (2 \<le> n \<longrightarrow>
         (\<forall>k. k + (2 * n - 2) < length rnds \<longrightarrow>
               ticks rnds a ! (k + (2 * n - 2)) = ticks rnds a ! k)
       \<and> (\<forall>k. (index a + k) mod (2 * n - 2) = 0 \<and> k + (2 * n - 2) \<le> length rnds \<longrightarrow>
               take (2 * n - 2) (drop k (ticks rnds a))
                 = map (\<lambda>p. Some (Single (sortedNotes a ! p))) ([0..<n] @ rev [1..<n - 1]))
       \<and> (\<forall>k. Suc k < length rnds \<longrightarrow> ticks rnds a ! Suc k \<noteq> ticks rnds a ! k))"
proof (intro conjI impI allI)
  assume "n = 1"
  then show "ticks rnds a = replicate (length rnds) (Some (Single (sortedNotes a ! 0)))"
    using assms by (intro ticks_upDown_single) simp_all
next
  fix k
  assume n: "2 \<le> n" and k: "k + (2 * n - 2) < length rnds"
  have t: "ticks rnds a =
      map (\<lambda>k. Some (Single (sortedNotes a ! upDownPosition n (index a + k)))) [0..<length rnds]"
    unfolding assms(5) using assms n by (intro ticks_upDown) simp_all
  have "upDownPosition n (index a + (k + (2 * n - 2))) = upDownPosition n (index a + k)"
    using upDownPosition_period[of n "index a + k"] by (simp add: add.assoc mult.commute)
  then show "ticks rnds a ! (k + (2 * n - 2)) = ticks rnds a ! k"
    using k by (simp add: t)
next
  fix k
  assume n: "2 \<le> n"
    and k: "(index a + k) mod (2 * n - 2) = 0 \<and> k + (2 * n - 2) \<le> length rnds"
  have t: "ticks rnds a =
      map (\<lambda>k. Some (Single (sortedNotes a ! upDownPosition n (index a + k)))) [0..<length rnds]"
    unfolding assms(5) using assms n by (intro ticks_upDown) simp_all
  have c: "2 * n - 2 = n * 2 - 2" by simp
  have "take (2 * n - 2) (drop k (ticks rnds a)) =
      map (\<lambda>j. Some (Single (sortedNotes a ! upDownPosition n (index a + j)))) [k..<k + (2 * n - 2)]"
    using k by (simp add: t drop_map take_map drop_upt take_upt)
  also have "[k..<k + (2 * n - 2)] = map (\<lambda>j. k + j) [0..<2 * n - 2]"
    by (rule nth_equalityI) simp_all
  also have "map (\<lambda>j. Some (Single (sortedNotes a ! upDownPosition n (index a + j)))) (map (\<lambda>j. k + j) [0..<2 * n - 2])
      = map (\<lambda>p. Some (Single (sortedNotes a ! p))) (map (\<lambda>j. upDownPosition n ((index a + k) + j)) [0..<n * 2 - 2])"
    by (simp add: c add.assoc)
  also have "map (\<lambda>j. upDownPosition n ((index a + k) + j)) [0..<n * 2 - 2] = [0..<n] @ rev [1..<n - 1]"
    using n k by (intro upDownPosition_cycle) (simp_all add: c [symmetric])
  finally show "take (2 * n - 2) (drop k (ticks rnds a))
      = map (\<lambda>p. Some (Single (sortedNotes a ! p))) ([0..<n] @ rev [1..<n - 1])" .
next
  fix k
  assume n: "2 \<le> n" and k: "Suc k < length rnds"
  have t: "ticks rnds a =
      map (\<lambda>k. Some (Single (sortedNotes a ! upDownPosition n (index a + k)))) [0..<length rnds]"
    unfolding assms(5) using assms n by (intro ticks_upDown) simp_all
  have d: "distinct (sortedNotes a)" using assms(3,4) by simp
  have "upDownPosition n (Suc (index a + k)) \<noteq> upDownPosition n (index a + k)"
    using n by (rule upDownPosition_step)
  moreover have "upDownPosition n (Suc (index a + k)) < length (sortedNotes a)"
    "upDownPosition n (index a + k) < length (sortedNotes a)"
    using n upDownPosition_less[of n] by (simp_all add: assms(5))
  ultimately have "sortedNotes a ! upDownPosition n (Suc (index a + k))
      \<noteq> sortedNotes a ! upDownPosition n (index a + k)"
    using d by (simp add: nth_eq_iff_index_eq)
  then show "ticks rnds a ! Suc k \<noteq> ticks rnds a ! k"
    using k by (simp add: t)
qed

theorem upDown_cycle_witness:
  "isEnabled held_three \<and> pattern held_three = UpDown \<and> distinct (activeNotes held_three)
   \<and> sortedNotes held_three = sort (activeNotes held_three)
   \<and> (3::nat) = length (sortedNotes held_three) \<and> index held_three = 0
   \<and> ticks [0, 0, 0, 0, 0, 0] held_three ! 4 = ticks [0, 0, 0, 0, 0, 0] held_three ! 0
   \<and> take 4 (ticks [0, 0, 0, 0, 0, 0] held_three)
       = [Some (Single 220), Some (Single 330), Some (Single 440), Some (Single 330)]
   \<and> ticks [0, 0, 0, 0, 0, 0] held_three ! 4 \<noteq> ticks [0, 0, 0, 0, 0, 0] held_three ! 3
   \<and> isEnabled held_one \<and> pattern held_one = UpDown \<and> distinct (activeNotes held_one)
   \<and> sortedNotes held_one = sort (activeNotes held_one)
   \<and> (1::nat) = length (sortedNotes held_one)
   \<and> ticks [0, 0, 0] held_one = [Some (Single 440), Some (Single 440), Some (Single 440)]"
proof -
  have h3: "isEnabled held_three" "pattern held_three = UpDown" "distinct (activeNotes held_three)"
    "sortedNotes held_three = sort (activeNotes held_three)"
    "(3::nat) = length (sortedNotes held_three)"
    by (simp_all add: held_three_eq)
  have h1: "isEnabled held_one" "pattern held_one = UpDown" "distinct (activeNotes held_one)"
    "sortedNotes held_one = sort (activeNotes held_one)"
    "(1::nat) = length (sortedNotes held_one)"
    by (simp_all add: held_one_eq)
  have i: "index held_three = 0" by (simp add: held_three_eq)
  have two: "2 \<le> (3::nat)" by simp
  note c3 = upDown_cycle[OF h3, of "[0, 0, 0, 0, 0, 0]", THEN conjunct2, THEN mp, OF two]
  note c1 = upDown_cycle[OF h1, of "[0, 0, 0]", THEN conjunct1]
  have p: "ticks [0, 0, 0, 0, 0, 0] held_three ! 4 = ticks [0, 0, 0, 0, 0, 0] held_three ! 0"
    using c3[THEN conjunct1, THEN spec, of 0] by (simp del: ticks.simps)
  have u: "[0..<3] @ rev [1..<3 - 1] = [0, 1, Suc 1, 1]" by (simp add: upt_rec)
  have q: "take 4 (ticks [0, 0, 0, 0, 0, 0] held_three)
       = [Some (Single 220), Some (Single 330), Some (Single 440), Some (Single 330)]"
    using c3[THEN conjunct2, THEN conjunct1, THEN spec, of 0] i unfolding u
    by (simp add: held_three_eq del: ticks.simps)
  have r: "ticks [0, 0, 0, 0, 0, 0] held_three ! 4 \<noteq> ticks [0, 0, 0, 0, 0, 0] held_three ! 3"
    using c3[THEN conjunct2, THEN conjunct2, THEN spec, of 3] by (simp del: ticks.simps)
  have s: "ticks [0, 0, 0] held_one = [Some (Single 440), Some (Single 440), Some (Single 440)]"
    using c1 by (simp add: held_one_eq del: ticks.simps)
  show ?thesis
    by (intro conjI) (rule h3 h1 i p q r s)+
qed

section \<open>Properties of the engine\<close>

lemmas run_defs = new_AudioEngine_def new_LoopTrack_def new_Player_def new_Arpeggiator_def
  startRecording_def stopRecording_def recordTouchEvent_def track_at_def set_track_def

lemma track_at_set_track:
  assumes "track_at (tracks s) i = Some t"
  shows "track_at (tracks (set_track i t' s)) i = Some t'"
  using assms by (auto simp: track_at_def set_track_def split: if_splits)

lemma track_at_set_track_other:
  assumes "j \<noteq> i" "0 \<le> i"
  shows "track_at (tracks (set_track i t' s)) j = track_at (tracks s) j"
  using assms by (auto simp: track_at_def set_track_def nth_list_update)

lemma isEnabled_fold_addNote: "isEnabled (fold addNote fs a) = isEnabled a"
  by (induction fs arbitrary: a) (simp_all add: addNote_def updateSortedNotes_def)

lemma isEnabled_fold_removeNote: "isEnabled (fold removeNote fs a) = isEnabled a"
  by (induction fs arbitrary: a) (simp_all add: removeNote_def updateSortedNotes_def)

lemma isEnabled_removeOldFreqs: "isEnabled (removeOldFreqs old a) = isEnabled a"
  by (cases old) (simp_all add: removeOldFreqs_def isEnabled_fold_removeNote)

lemma js_rem_nonneg:
  assumes "0 \<le> x" "0 < m"
  shows "0 \<le> js_rem x m \<and> js_rem x m < m"
proof -
  define a where "a = real_of_int \<lfloor>x / m\<rfloor>"
  have "a \<le> x / m" "x / m < a + 1" unfolding a_def by linarith+
  then have "m * a \<le> x" "x < m * a + m"
    using assms(2) by (simp_all add: field_simps)
  moreover have "js_rem x m = x - m * a"
    using assms by (simp add: js_rem_def js_trunc_def a_def)
  ultimately show ?thesis by simp
qed

lemma armed_eq: "startRecording 0 new_AudioEngine = Inr armed"
  by (simp add: armed_def run_defs)

lemma armed_track0: "track_at (tracks armed) 0 = Some ((new_LoopTrack ''#00f0ff'')\<lparr>isRecording := True\<rparr>)"
  by (simp add: armed_def run_defs)

lemma armed_loop: "masterLoopDuration armed = None"
  by (simp add: armed_def run_defs)

lemma stopRecording_captured:
  assumes "track_at (tracks s) i = Some track" "isRecording track"
  shows "stopRecording i now (Captured buf) s =
    Inr ((set_track i
            (track\<lparr>isRecording := False,
               ghostEvents :=
                 (case masterLoopDuration s of
                    None \<Rightarrow> map (\<lambda>e. e\<lparr>ev_time := ev_time e - (now - duration buf)\<rparr>) (ghostEvents track)
                  | Some m \<Rightarrow>
                      map (\<lambda>e. e\<lparr>ev_time := js_rem (ev_time e - (now - duration buf)) m\<rparr>)
                        (ghostEvents track)),
               audioBuffer := Some buf,
               player := (player track)\<lparr>buffer := Some buf, synced := True, playerStarted := True\<rparr>,
               isPlaying := True\<rparr>)
            (case masterLoopDuration s of
               None \<Rightarrow> s\<lparr>masterLoopDuration := Some (duration buf),
                         transport := (transport s)\<lparr>loop := True, loopStart := 0,
                                                    loopEnd := duration buf\<rparr>\<rparr>
             | Some m \<Rightarrow> s))
          \<lparr>recorderStarted := False,
           transport := (transport (case masterLoopDuration s of
               None \<Rightarrow> s\<lparr>masterLoopDuration := Some (duration buf),
                         transport := (transport s)\<lparr>loop := True, loopStart := 0,
                                                    loopEnd := duration buf\<rparr>\<rparr>
             | Some m \<Rightarrow> s))\<lparr>transportStarted := True\<rparr>\<rparr>)"
  using assms by (cases "masterLoopDuration s") (simp_all add: stopRecording_def Let_def)

section \<open>The claims about the looper\<close>

text \<open>
  C5: while some track is recording, \<open>startRecording\<close> returns for every track index
  without an error and leaves the whole engine as it was: no track, and not the
  recorder, is changed.
\<close>

theorem second_recording_rejected:
  assumes "\<exists>t \<in> set (tracks s). isRecording t"
  shows "startRecording i s = Inr s"
  using assms by (simp add: startRecording_def)

theorem second_recording_rejected_witness:
  "isRecording (tracks armed ! 0) \<and> startRecording 1 armed = Inr armed
   \<and> startRecording 0 armed = Inr armed"
proof -
  have r: "isRecording (tracks armed ! 0)" "tracks armed \<noteq> []"
    by (simp_all add: armed_def run_defs)
  then have "tracks armed ! 0 \<in> set (tracks armed)" by simp
  with r(1) have h: "\<exists>t \<in> set (tracks armed). isRecording t" by blast
  show ?thesis
    using r(1) second_recording_rejected[OF h, of 1] second_recording_rejected[OF h, of 0]
    by blast
qed

text \<open>
  C2, as the code has it. When \<open>stopRecording\<close> is called for the recording track and the
  capture succeeds: if \<open>masterLoopDuration\<close> was null it becomes the duration of the buffer,
  and every ghost event of the track gets the time \<open>raw - (now - duration)\<close>; these times
  lie in \<open>[0, masterLoopDuration)\<close> exactly when every raw time lies in
  \<open>[now - duration, now)\<close>. If \<open>masterLoopDuration\<close> was already \<open>m\<close> it stays \<open>m\<close>, and every
  ghost event gets the time \<open>(raw - (now - duration)) % m\<close>; these times lie in \<open>[0, m)\<close>
  when \<open>m > 0\<close> and no raw time is before \<open>now - duration\<close>.
\<close>

theorem stopRecording_loop_duration:
  assumes "track_at (tracks s) i = Some track" "isRecording track"
  shows "\<exists>s' track'. stopRecording i now (Captured buf) s = Inr s'
      \<and> track_at (tracks s') i = Some track'
      \<and> (masterLoopDuration s = None \<longrightarrow>
            masterLoopDuration s' = Some (duration buf)
          \<and> ghostEvents track'
              = map (\<lambda>e. e\<lparr>ev_time := ev_time e - (now - duration buf)\<rparr>) (ghostEvents track)
          \<and> map ev_time (ghostEvents track')
              = map (\<lambda>e. ev_time e - (now - duration buf)) (ghostEvents track)
          \<and> ((\<forall>e \<in> set (ghostEvents track'). 0 \<le> ev_time e \<and> ev_time e < duration buf)
               \<longleftrightarrow> (\<forall>e \<in> set (ghostEvents track).
                      now - duration buf \<le> ev_time e \<and> ev_time e < now)))
      \<and> (\<forall>m. masterLoopDuration s = Some m \<longrightarrow>
            masterLoopDuration s' = Some m
          \<and> ghostEvents track'
              = map (\<lambda>e. e\<lparr>ev_time := js_rem (ev_time e - (now - duration buf)) m\<rparr>)
                  (ghostEvents track)
          \<and> map ev_time (ghostEvents track')
              = map (\<lambda>e. js_rem (ev_time e - (now - duration buf)) m) (ghostEvents track)
          \<and> (0 < m \<and> (\<forall>e \<in> set (ghostEvents track). now - duration buf \<le> ev_time e) \<longrightarrow>
               (\<forall>e \<in> set (ghostEvents track'). 0 \<le> ev_time e \<and> ev_time e < m)))"
proof (cases "masterLoopDuration s")
  case None
  define track' where "track' = track\<lparr>isRecording := False,
      ghostEvents := map (\<lambda>e. e\<lparr>ev_time := ev_time e - (now - duration buf)\<rparr>) (ghostEvents track),
      audioBuffer := Some buf,
      player := (player track)\<lparr>buffer := Some buf, synced := True, playerStarted := True\<rparr>,
      isPlaying := True\<rparr>"
  define s1 where "s1 = s\<lparr>masterLoopDuration := Some (duration buf),
      transport := (transport s)\<lparr>loop := True, loopStart := 0, loopEnd := duration buf\<rparr>\<rparr>"
  define s' where "s' = (set_track i track' s1)\<lparr>recorderStarted := False,
      transport := (transport s1)\<lparr>transportStarted := True\<rparr>\<rparr>"
  have r: "stopRecording i now (Captured buf) s = Inr s'"
    using stopRecording_captured[OF assms, of now buf] None
    by (simp add: s'_def s1_def track'_def)
  have "track_at (tracks s1) i = Some track" using assms(1) by (simp add: s1_def)
  then have "track_at (tracks (set_track i track' s1)) i = Some track'"
    by (rule track_at_set_track)
  then have t: "track_at (tracks s') i = Some track'" by (simp add: s'_def)
  have m: "masterLoopDuration s' = Some (duration buf)"
    by (simp add: s'_def s1_def set_track_def)
  have g: "ghostEvents track'
      = map (\<lambda>e. e\<lparr>ev_time := ev_time e - (now - duration buf)\<rparr>) (ghostEvents track)"
    by (simp add: track'_def)
  have e: "map ev_time (ghostEvents track')
      = map (\<lambda>e. ev_time e - (now - duration buf)) (ghostEvents track)"
    by (simp add: track'_def)
  have "(\<forall>e \<in> set (ghostEvents track'). 0 \<le> ev_time e \<and> ev_time e < duration buf)
      \<longleftrightarrow> (\<forall>x \<in> set (map ev_time (ghostEvents track')). 0 \<le> x \<and> x < duration buf)"
    by simp
  also have "\<dots> \<longleftrightarrow> (\<forall>e \<in> set (ghostEvents track).
      0 \<le> ev_time e - (now - duration buf) \<and> ev_time e - (now - duration buf) < duration buf)"
    unfolding e by simp
  also have "\<dots> \<longleftrightarrow> (\<forall>e \<in> set (ghostEvents track).
      now - duration buf \<le> ev_time e \<and> ev_time e < now)"
    by (intro ball_cong refl) auto
  finally have f: "(\<forall>e \<in> set (ghostEvents track'). 0 \<le> ev_time e \<and> ev_time e < duration buf)
      \<longleftrightarrow> (\<forall>e \<in> set (ghostEvents track). now - duration buf \<le> ev_time e \<and> ev_time e < now)" .
  show ?thesis
    by (intro exI[of _ s'] exI[of _ track'] conjI impI allI)
      (use r t m g e f None in simp_all)
next
  case (Some m)
  define track' where "track' = track\<lparr>isRecording := False,
      ghostEvents := map (\<lambda>e. e\<lparr>ev_time := js_rem (ev_time e - (now - duration buf)) m\<rparr>) (ghostEvents track),
      audioBuffer := Some buf,
      player := (player track)\<lparr>buffer := Some buf, synced := True, playerStarted := True\<rparr>,
      isPlaying := True\<rparr>"
  define s' where "s' = (set_track i track' s)\<lparr>recorderStarted := False,
      transport := (transport s)\<lparr>transportStarted := True\<rparr>\<rparr>"
  have r: "stopRecording i now (Captured buf) s = Inr s'"
    using stopRecording_captured[OF assms, of now buf] Some
    by (simp add: s'_def track'_def)
  have "track_at (tracks (set_track i track' s)) i = Some track'"
    using assms(1) by (rule track_at_set_track)
  then have t: "track_at (tracks s') i = Some track'" by (simp add: s'_def)
  have ml: "masterLoopDuration s' = Some m"
    using Some by (simp add: s'_def set_track_def)
  have g: "ghostEvents track'
      = map (\<lambda>e. e\<lparr>ev_time := js_rem (ev_time e - (now - duration buf)) m\<rparr>) (ghostEvents track)"
    by (simp add: track'_def)
  have e: "map ev_time (ghostEvents track')
      = map (\<lambda>e. js_rem (ev_time e - (now - duration buf)) m) (ghostEvents track)"
    by (simp add: track'_def)
  have b: "\<forall>e \<in> set (ghostEvents track'). 0 \<le> ev_time e \<and> ev_time e < m"
    if "0 < m \<and> (\<forall>e \<in> set (ghostEvents track). now - duration buf \<le> ev_time e)"
  proof
    fix e assume "e \<in> set (ghostEvents track')"
    then obtain e0 where e0: "e0 \<in> set (ghostEvents track)"
      "ev_time e = js_rem (ev_time e0 - (now - duration buf)) m"
      by (auto simp: track'_def)
    have "0 \<le> ev_time e0 - (now - duration buf)" using that e0(1) by auto
    moreover have "0 < m" using that by simp
    ultimately show "0 \<le> ev_time e \<and> ev_time e < m"
      unfolding e0(2) by (rule js_rem_nonneg)
  qed
  show ?thesis
  proof (intro exI[of _ s'] exI[of _ track'] conjI impI allI)
    show "stopRecording i now (Captured buf) s = Inr s'" by (rule r)
    show "track_at (tracks s') i = Some track'" by (rule t)
  next
    fix m' assume "masterLoopDuration s = Some m'"
    then have mm: "m' = m" using Some by simp
    show "masterLoopDuration s' = Some m'" using ml mm by simp
    show "ghostEvents track'
        = map (\<lambda>e. e\<lparr>ev_time := js_rem (ev_time e - (now - duration buf)) m'\<rparr>) (ghostEvents track)"
      using g mm by simp
    show "map ev_time (ghostEvents track')
        = map (\<lambda>e. js_rem (ev_time e - (now - duration buf)) m') (ghostEvents track)"
      using e mm by simp
    assume "0 < m' \<and> (\<forall>e \<in> set (ghostEvents track). now - duration buf \<le> ev_time e)"
    then show "\<forall>e \<in> set (ghostEvents track'). 0 \<le> ev_time e \<and> ev_time e < m'"
      using b mm by simp
  qed (use Some in simp_all)
qed

lemmas example_defs = armed_def armed_touched_def looped_def rearmed_def second_armed_def
  second_touched_def boundary_take_def failed_retake_def

theorem stopRecording_loop_duration_witness:
  "track_at (tracks armed_touched) 0 = Some (tracks armed_touched ! 0)
   \<and> isRecording (tracks armed_touched ! 0)
   \<and> masterLoopDuration armed_touched = None
   \<and> map ev_time (ghostEvents (tracks armed_touched ! 0)) = [8]
   \<and> (9::real) - 4 \<le> 8 \<and> (8::real) < 9
   \<and> \<not> isl (stopRecording 0 9 (Captured (AudioBuffer 4)) armed_touched)
   \<and> masterLoopDuration (projr (stopRecording 0 9 (Captured (AudioBuffer 4)) armed_touched)) = Some 4
   \<and> map ev_time (ghostEvents (tracks
         (projr (stopRecording 0 9 (Captured (AudioBuffer 4)) armed_touched)) ! 0)) = [3]
   \<and> track_at (tracks second_touched) 1 = Some (tracks second_touched ! 1)
   \<and> isRecording (tracks second_touched ! 1)
   \<and> masterLoopDuration second_touched = Some 4 \<and> (0::real) < 4
   \<and> map ev_time (ghostEvents (tracks second_touched ! 1)) = [7]
   \<and> (9::real) - 7 \<le> 7
   \<and> \<not> isl (stopRecording 1 9 (Captured (AudioBuffer 7)) second_touched)
   \<and> masterLoopDuration (projr (stopRecording 1 9 (Captured (AudioBuffer 7)) second_touched)) = Some 4
   \<and> map ev_time (ghostEvents (tracks
         (projr (stopRecording 1 9 (Captured (AudioBuffer 7)) second_touched)) ! 1)) = [1]
   \<and> 0 \<le> ev_time (hd (ghostEvents (tracks
         (projr (stopRecording 1 9 (Captured (AudioBuffer 7)) second_touched)) ! 1)))
   \<and> ev_time (hd (ghostEvents (tracks
         (projr (stopRecording 1 9 (Captured (AudioBuffer 7)) second_touched)) ! 1))) < 4"
proof -
  have a: "track_at (tracks armed_touched) 0 = Some (tracks armed_touched ! 0)"
    "isRecording (tracks armed_touched ! 0)"
    by (simp_all add: example_defs run_defs)
  have a3: "masterLoopDuration armed_touched = None"
    by (simp add: example_defs run_defs)
  have a4: "map ev_time (ghostEvents (tracks armed_touched ! 0)) = [8]"
    by (simp add: example_defs run_defs)
  have b: "track_at (tracks second_touched) 1 = Some (tracks second_touched ! 1)"
    "isRecording (tracks second_touched ! 1)"
    by (simp_all add: example_defs run_defs)
  have b3: "masterLoopDuration second_touched = Some 4"
    by (simp add: example_defs run_defs)
  have b4: "map ev_time (ghostEvents (tracks second_touched ! 1)) = [7]"
    by (simp add: example_defs run_defs)
  have b5: "\<forall>e \<in> set (ghostEvents (tracks second_touched ! 1)).
      9 - duration (AudioBuffer 7) \<le> ev_time e"
  proof
    fix e assume "e \<in> set (ghostEvents (tracks second_touched ! 1))"
    then have "ev_time e \<in> set (map ev_time (ghostEvents (tracks second_touched ! 1)))"
      by simp
    then show "9 - duration (AudioBuffer 7) \<le> ev_time e" unfolding b4 by simp
  qed
  obtain s1 t1 where r1: "stopRecording 0 9 (Captured (AudioBuffer 4)) armed_touched = Inr s1"
    "track_at (tracks s1) 0 = Some t1"
    "masterLoopDuration s1 = Some (duration (AudioBuffer 4))"
    "map ev_time (ghostEvents t1)
       = map (\<lambda>e. ev_time e - (9 - duration (AudioBuffer 4))) (ghostEvents (tracks armed_touched ! 0))"
    using stopRecording_loop_duration[OF a, of 9 "AudioBuffer 4"] a3 by blast
  have t1: "t1 = tracks s1 ! 0"
    using r1(2) by (simp add: track_at_def split: if_splits)
  have "map (\<lambda>e. ev_time e - (9 - duration (AudioBuffer 4))) (ghostEvents (tracks armed_touched ! 0))
      = map (\<lambda>x. x - (9 - duration (AudioBuffer 4))) (map ev_time (ghostEvents (tracks armed_touched ! 0)))"
    by (simp add: comp_def)
  also have "\<dots> = [3]" unfolding a4 by simp
  finally have e1: "map ev_time (ghostEvents (tracks s1 ! 0)) = [3]"
    using r1(4) t1 by simp
  obtain s2 t2 where r2: "stopRecording 1 9 (Captured (AudioBuffer 7)) second_touched = Inr s2"
    "track_at (tracks s2) 1 = Some t2"
    "masterLoopDuration s2 = Some 4"
    "map ev_time (ghostEvents t2)
       = map (\<lambda>e. js_rem (ev_time e - (9 - duration (AudioBuffer 7))) 4)
           (ghostEvents (tracks second_touched ! 1))"
    "\<forall>e \<in> set (ghostEvents t2). 0 \<le> ev_time e \<and> ev_time e < 4"
    using stopRecording_loop_duration[OF b, of 9 "AudioBuffer 7"] b3 b5 by fastforce
  have t2: "t2 = tracks s2 ! 1"
    using r2(2) by (simp add: track_at_def split: if_splits)
  have "map (\<lambda>e. js_rem (ev_time e - (9 - duration (AudioBuffer 7))) 4)
           (ghostEvents (tracks second_touched ! 1))
      = map (\<lambda>x. js_rem (x - (9 - duration (AudioBuffer 7))) 4)
           (map ev_time (ghostEvents (tracks second_touched ! 1)))"
    by (simp add: comp_def)
  also have "\<dots> = [1]" unfolding b4 by (simp add: js_rem_def js_trunc_def)
  finally have e2: "map ev_time (ghostEvents (tracks s2 ! 1)) = [1]"
    using r2(4) t2 by simp
  then have "ghostEvents (tracks s2 ! 1) \<noteq> []" by auto
  then have "hd (ghostEvents t2) \<in> set (ghostEvents t2)"
    by (simp add: t2)
  then have e3: "0 \<le> ev_time (hd (ghostEvents (tracks s2 ! 1)))
      \<and> ev_time (hd (ghostEvents (tracks s2 ! 1))) < 4"
    using r2(5) t2 by blast
  show ?thesis
    using a a3 a4 b b3 b4 r1(3) e1 r2(3) e2 e3 by (simp add: r1(1) r2(1))
qed

text \<open>
  C2 as it is written fails. A touch is logged on the recording track at time 8 and the
  recording is stopped at time 8 with a buffer of 4 seconds: the loop duration becomes 4
  and the event gets the time 4, which is not below 4. And while a track records over a
  loop of 4 seconds, the event it logs at time 7 carries the raw time 7.
\<close>

theorem ghost_time_counterexample:
  "isRecording (tracks armed_touched ! 0) \<and> masterLoopDuration armed_touched = None
   \<and> \<not> isl boundary_take
   \<and> masterLoopDuration (projr boundary_take) = Some 4
   \<and> map ev_time (ghostEvents (tracks (projr boundary_take) ! 0)) = [4]
   \<and> masterLoopDuration second_touched = Some 4
   \<and> map ev_time (ghostEvents (tracks second_touched ! 1)) = [7]"
  by (simp add: example_defs run_defs)

lemma startRecording_starts:
  assumes "\<forall>t \<in> set (tracks s). \<not> isRecording t" "track_at (tracks s) j = Some tj"
  shows "startRecording j s =
    Inr ((set_track j
            (tj\<lparr>player := (player tj)\<lparr>synced := False, playerStarted := False\<rparr>,
                ghostEvents := [], isRecording := True\<rparr>) s)\<lparr>recorderStarted := True\<rparr>)"
  using assms by (simp add: startRecording_def)

lemma stopRecording_sets_loop:
  assumes "track_at (tracks s) i = Some track" "isRecording track" "masterLoopDuration s = None"
  shows "\<exists>s'. stopRecording i now (Captured buf) s = Inr s'
      \<and> masterLoopDuration s' = Some (duration buf)"
  using stopRecording_captured[OF assms(1,2), of now buf] assms(3)
  by (simp add: set_track_def)

lemma no_track_recording_after:
  assumes "track_at (tracks s) i = Some track"
    and "\<forall>k t. k \<noteq> i \<and> track_at (tracks s) k = Some t \<longrightarrow> \<not> isRecording t"
  shows "\<forall>t \<in> set ((tracks s)[nat i := track\<lparr>isRecording := False\<rparr>]). \<not> isRecording t"
proof
  fix x assume "x \<in> set ((tracks s)[nat i := track\<lparr>isRecording := False\<rparr>])"
  then obtain k where k: "k < length (tracks s)"
    "x = (tracks s)[nat i := track\<lparr>isRecording := False\<rparr>] ! k"
    by (auto simp: in_set_conv_nth)
  have i: "0 \<le> i" using assms(1) by (simp add: track_at_def split: if_splits)
  show "\<not> isRecording x"
  proof (cases "k = nat i")
    case True
    then show ?thesis using k by simp
  next
    case False
    then have "x = tracks s ! k" using k by simp
    moreover have "int k \<noteq> i" using False i by auto
    moreover have "track_at (tracks s) (int k) = Some (tracks s ! k)"
      using k(1) by (simp add: track_at_def)
    ultimately show ?thesis using assms(2) by blast
  qed
qed

text \<open>
  C9, as the code has it. When \<open>stopRecording\<close> is called for the recording track and the
  recorder's stop or the loading of the buffer throws, no error comes out. The engine is
  as before except that the track no longer records (and the recorder is stopped when the
  failure came after its stop): the audio buffer, the \<open>isPlaying\<close> flag and the ghost events
  of the track, and \<open>masterLoopDuration\<close>, are as they were before the call. When
  \<open>masterLoopDuration\<close> was null and no other track was recording, a later \<open>startRecording\<close>
  on any track starts, and stopping it with a captured buffer sets \<open>masterLoopDuration\<close> to
  the duration of that buffer.
\<close>

theorem capture_failure_caught:
  assumes "track_at (tracks s) i = Some track" "isRecording track"
    and "capture = StopThrows \<or> capture = LoadThrows"
  shows "\<exists>s' track'. stopRecording i now capture s = Inr s'
      \<and> s' = s\<lparr>tracks := (tracks s)[nat i := track\<lparr>isRecording := False\<rparr>],
               recorderStarted := (if capture = LoadThrows then False else recorderStarted s)\<rparr>
      \<and> track_at (tracks s') i = Some track'
      \<and> \<not> isRecording track'
      \<and> audioBuffer track' = audioBuffer track
      \<and> isPlaying track' = isPlaying track
      \<and> ghostEvents track' = ghostEvents track
      \<and> masterLoopDuration s' = masterLoopDuration s
      \<and> (masterLoopDuration s = None
           \<and> (\<forall>k t. k \<noteq> i \<and> track_at (tracks s) k = Some t \<longrightarrow> \<not> isRecording t) \<longrightarrow>
          (\<forall>j tj now2 buf. track_at (tracks s') j = Some tj \<longrightarrow>
             (\<exists>s2 t2 s3. startRecording j s' = Inr s2
                \<and> track_at (tracks s2) j = Some t2 \<and> isRecording t2
                \<and> stopRecording j now2 (Captured buf) s2 = Inr s3
                \<and> masterLoopDuration s3 = Some (duration buf))))"
proof -
  let ?t = "track\<lparr>isRecording := False\<rparr>"
  define s' where "s' = s\<lparr>tracks := (tracks s)[nat i := ?t],
      recorderStarted := (if capture = LoadThrows then False else recorderStarted s)\<rparr>"
  have r: "stopRecording i now capture s = Inr s'"
    using assms by (auto simp: stopRecording_def set_track_def s'_def)
  have "track_at (tracks (set_track i ?t s)) i = Some ?t"
    using assms(1) by (rule track_at_set_track)
  then have t: "track_at (tracks s') i = Some ?t"
    by (simp add: s'_def set_track_def)
  have m: "masterLoopDuration s' = masterLoopDuration s" by (simp add: s'_def)
  have retry: "\<exists>s2 t2 s3. startRecording j s' = Inr s2
        \<and> track_at (tracks s2) j = Some t2 \<and> isRecording t2
        \<and> stopRecording j now2 (Captured buf) s2 = Inr s3
        \<and> masterLoopDuration s3 = Some (duration buf)"
    if h: "masterLoopDuration s = None
        \<and> (\<forall>k t. k \<noteq> i \<and> track_at (tracks s) k = Some t \<longrightarrow> \<not> isRecording t)"
      and j: "track_at (tracks s') j = Some tj"
    for j tj now2 buf
  proof -
    have "\<forall>t \<in> set ((tracks s)[nat i := ?t]). \<not> isRecording t"
      using assms(1) h by (intro no_track_recording_after) blast+
    then have n: "\<forall>t \<in> set (tracks s'). \<not> isRecording t" by (simp add: s'_def)
    define t2 where "t2 = tj\<lparr>player := (player tj)\<lparr>synced := False, playerStarted := False\<rparr>,
        ghostEvents := [], isRecording := True\<rparr>"
    define s2 where "s2 = (set_track j t2 s')\<lparr>recorderStarted := True\<rparr>"
    have 1: "startRecording j s' = Inr s2"
      using startRecording_starts[OF n j] by (simp add: s2_def t2_def)
    have "track_at (tracks (set_track j t2 s')) j = Some t2"
      using j by (rule track_at_set_track)
    then have 2: "track_at (tracks s2) j = Some t2" by (simp add: s2_def)
    have 3: "isRecording t2" by (simp add: t2_def)
    have 4: "masterLoopDuration s2 = None"
      using h m by (simp add: s2_def set_track_def)
    obtain s3 where "stopRecording j now2 (Captured buf) s2 = Inr s3"
      "masterLoopDuration s3 = Some (duration buf)"
      using stopRecording_sets_loop[OF 2 3 4, of now2 buf] by blast
    then show ?thesis using 1 2 3 by blast
  qed
  have last: "masterLoopDuration s = None
           \<and> (\<forall>k t. k \<noteq> i \<and> track_at (tracks s) k = Some t \<longrightarrow> \<not> isRecording t) \<longrightarrow>
          (\<forall>j tj now2 buf. track_at (tracks s') j = Some tj \<longrightarrow>
             (\<exists>s2 t2 s3. startRecording j s' = Inr s2
                \<and> track_at (tracks s2) j = Some t2 \<and> isRecording t2
                \<and> stopRecording j now2 (Captured buf) s2 = Inr s3
                \<and> masterLoopDuration s3 = Some (duration buf)))"
    using retry by blast
  show ?thesis
  proof (rule exI[of _ s'], rule exI[of _ ?t], intro conjI)
    show "stopRecording i now capture s = Inr s'" by (rule r)
    show "s' = s\<lparr>tracks := (tracks s)[nat i := ?t],
        recorderStarted := (if capture = LoadThrows then False else recorderStarted s)\<rparr>"
      by (rule s'_def)
    show "track_at (tracks s') i = Some ?t" by (rule t)
    show "\<not> isRecording ?t" by simp
    show "audioBuffer ?t = audioBuffer track" by simp
    show "isPlaying ?t = isPlaying track" by simp
    show "ghostEvents ?t = ghostEvents track" by simp
    show "masterLoopDuration s' = masterLoopDuration s" by (rule m)
    show "masterLoopDuration s = None
           \<and> (\<forall>k t. k \<noteq> i \<and> track_at (tracks s) k = Some t \<longrightarrow> \<not> isRecording t) \<longrightarrow>
          (\<forall>j tj now2 buf. track_at (tracks s') j = Some tj \<longrightarrow>
             (\<exists>s2 t2 s3. startRecording j s' = Inr s2
                \<and> track_at (tracks s2) j = Some t2 \<and> isRecording t2
                \<and> stopRecording j now2 (Captured buf) s2 = Inr s3
                \<and> masterLoopDuration s3 = Some (duration buf)))"
      by (rule last)
  qed
qed

theorem capture_failure_caught_witness:
  "track_at (tracks armed) 0 = Some (tracks armed ! 0) \<and> isRecording (tracks armed ! 0)
   \<and> audioBuffer (tracks armed ! 0) = None \<and> \<not> isPlaying (tracks armed ! 0)
   \<and> masterLoopDuration armed = None
   \<and> \<not> isRecording (tracks armed ! 1) \<and> \<not> isRecording (tracks armed ! 2)
   \<and> \<not> isRecording (tracks armed ! 3) \<and> length (tracks armed) = 4
   \<and> \<not> isl (stopRecording 0 5 LoadThrows armed)
   \<and> \<not> isRecording (tracks (projr (stopRecording 0 5 LoadThrows armed)) ! 0)
   \<and> audioBuffer (tracks (projr (stopRecording 0 5 LoadThrows armed)) ! 0) = None
   \<and> \<not> isPlaying (tracks (projr (stopRecording 0 5 LoadThrows armed)) ! 0)
   \<and> masterLoopDuration (projr (stopRecording 0 5 LoadThrows armed)) = None
   \<and> \<not> isl (startRecording 1 (projr (stopRecording 0 5 LoadThrows armed)))
   \<and> masterLoopDuration (projr (stopRecording 1 9 (Captured (AudioBuffer 3))
         (projr (startRecording 1 (projr (stopRecording 0 5 LoadThrows armed)))))) = Some 3"
proof -
  have a: "track_at (tracks armed) 0 = Some (tracks armed ! 0)" "isRecording (tracks armed ! 0)"
    "LoadThrows = StopThrows \<or> LoadThrows = LoadThrows"
    by (simp_all add: example_defs run_defs)
  have b: "audioBuffer (tracks armed ! 0) = None" "\<not> isPlaying (tracks armed ! 0)"
    "masterLoopDuration armed = None"
    by (simp_all add: example_defs run_defs)
  have c: "\<not> isRecording (tracks armed ! 1)" "\<not> isRecording (tracks armed ! 2)"
    "\<not> isRecording (tracks armed ! 3)" "length (tracks armed) = 4"
    by (simp_all add: example_defs run_defs)
  have others: "\<forall>k t. k \<noteq> 0 \<and> track_at (tracks armed) k = Some t \<longrightarrow> \<not> isRecording t"
  proof (intro allI impI)
    fix k t assume k: "k \<noteq> 0 \<and> track_at (tracks armed) k = Some t"
    then have "0 < k" "k < 4" "t = tracks armed ! nat k"
      using c(4) by (auto simp: track_at_def split: if_splits)
    then have "nat k = 1 \<or> nat k = 2 \<or> nat k = 3" by auto
    then show "\<not> isRecording t" using c \<open>t = tracks armed ! nat k\<close> by auto
  qed
  obtain s' t' where r: "stopRecording 0 5 LoadThrows armed = Inr s'"
    "track_at (tracks s') 0 = Some t'" "\<not> isRecording t'"
    "audioBuffer t' = audioBuffer (tracks armed ! 0)"
    "isPlaying t' = isPlaying (tracks armed ! 0)"
    "masterLoopDuration s' = masterLoopDuration armed"
    and retry: "masterLoopDuration armed = None
           \<and> (\<forall>k t. k \<noteq> 0 \<and> track_at (tracks armed) k = Some t \<longrightarrow> \<not> isRecording t) \<longrightarrow>
          (\<forall>j tj now2 buf. track_at (tracks s') j = Some tj \<longrightarrow>
             (\<exists>s2 t2 s3. startRecording j s' = Inr s2
                \<and> track_at (tracks s2) j = Some t2 \<and> isRecording t2
                \<and> stopRecording j now2 (Captured buf) s2 = Inr s3
                \<and> masterLoopDuration s3 = Some (duration buf)))"
    using capture_failure_caught[OF a, of 5] by blast
  have t': "t' = tracks s' ! 0"
    using r(2) by (simp add: track_at_def split: if_splits)
  have "track_at (tracks (projr (stopRecording 0 5 LoadThrows armed))) 1
      = Some (tracks (projr (stopRecording 0 5 LoadThrows armed)) ! 1)"
    by (simp add: example_defs run_defs)
  then have j: "track_at (tracks s') 1 = Some (tracks s' ! 1)" by (simp add: r(1))
  obtain s2 s3 where q: "startRecording 1 s' = Inr s2"
    "stopRecording 1 9 (Captured (AudioBuffer 3)) s2 = Inr s3"
    "masterLoopDuration s3 = Some (duration (AudioBuffer 3))"
    using retry b(3) others j by blast
  show ?thesis
    using a(1,2) b c r(3,4,5,6) q(3) by (simp add: r(1) t' q(1,2))
qed

text \<open>
  C9 as it is written fails when the track was recorded before: track 0 is recorded (a
  buffer of 4 seconds, playing), recorded again, and the second capture fails. The track
  ends with the first buffer attached and \<open>isPlaying\<close> true.
\<close>

theorem capture_failure_counterexample:
  "startRecording 0 new_AudioEngine = Inr armed
   \<and> stopRecording 0 4 (Captured (AudioBuffer 4)) armed = Inr looped
   \<and> startRecording 0 looped = Inr rearmed
   \<and> isRecording (tracks rearmed ! 0)
   \<and> \<not> isl failed_retake
   \<and> audioBuffer (tracks (projr failed_retake) ! 0) = Some (AudioBuffer 4)
   \<and> isPlaying (tracks (projr failed_retake) ! 0)"
  by (simp add: example_defs run_defs)

section \<open>The claims about the pointers\<close>

lemma one_mode_updateNote: "one_mode s \<Longrightarrow> one_mode (updateNote pid f v s)"
  by (auto simp: one_mode_def updateNote_def Let_def isEnabled_fold_addNote
      isEnabled_removeOldFreqs split: option.splits)

lemma one_mode_startNote: "one_mode s \<Longrightarrow> one_mode (startNote pid f v s)"
  by (auto simp: one_mode_def startNote_def updateNote_def Let_def isEnabled_fold_addNote
      isEnabled_removeOldFreqs split: option.splits)

lemma one_mode_stopNote: "one_mode s \<Longrightarrow> one_mode (stopNote pid s)"
  by (auto simp: one_mode_def stopNote_def Let_def isEnabled_removeOldFreqs
      split: option.splits if_splits)

lemma one_mode_disjoint: "one_mode s \<Longrightarrow> dom (voices s) \<inter> dom (activeArpTouches s) = {}"
  by (auto simp: one_mode_def split: if_splits)

lemma stopNote_releases:
  assumes "voices s pid = Some vs"
  shows "voices (stopNote pid s) pid = None
     \<and> fading (stopNote pid s) = fading s @ map triggerRelease vs"
  using assms by (simp add: stopNote_def Let_def)

text \<open>
  C1, as the code has it. \<open>setArpEnabled enabled\<close> sets the enabled flag of the arpeggiator
  (and, when switching off, empties its held notes) and changes nothing else: the map of
  voices, the map of arpeggiator registrations and the released voices are as before. So a
  pointer that holds voices keeps them, nothing is moved into the held notes, and it is the
  later \<open>stopNote\<close> of that pointer that releases its voices and takes them out of the map.
  As long as the engine is in one mode (arpeggiator on and no pointer with voices, or
  arpeggiator off and no pointer registered), \<open>startNote\<close>, \<open>updateNote\<close> and \<open>stopNote\<close> keep
  it so, and every pointer is in at most one of the two maps; switching while both maps
  are empty keeps it so too.
\<close>

theorem setArpEnabled_no_migration:
  "setArpEnabled True s = s\<lparr>arpeggiator := (arpeggiator s)\<lparr>isEnabled := True\<rparr>\<rparr>
   \<and> setArpEnabled False s
       = s\<lparr>arpeggiator := (arpeggiator s)\<lparr>isEnabled := False, activeNotes := [], sortedNotes := []\<rparr>\<rparr>
   \<and> isEnabled (arpeggiator (setArpEnabled enabled s)) = enabled
   \<and> voices (setArpEnabled enabled s) = voices s
   \<and> activeArpTouches (setArpEnabled enabled s) = activeArpTouches s
   \<and> fading (setArpEnabled enabled s) = fading s
   \<and> activeNotes (arpeggiator (setArpEnabled True s)) = activeNotes (arpeggiator s)
   \<and> activeNotes (arpeggiator (setArpEnabled False s)) = []
   \<and> (voices s pid = Some vs \<longrightarrow>
         voices (setArpEnabled enabled s) pid = Some vs
       \<and> voices (stopNote pid (setArpEnabled enabled s)) pid = None
       \<and> fading (stopNote pid (setArpEnabled enabled s)) = fading s @ map triggerRelease vs)
   \<and> (one_mode s \<longrightarrow>
         one_mode (startNote pid f v s) \<and> one_mode (updateNote pid f v s)
       \<and> one_mode (stopNote pid s)
       \<and> dom (voices s) \<inter> dom (activeArpTouches s) = {})
   \<and> (voices s = Map.empty \<and> activeArpTouches s = Map.empty \<longrightarrow>
         one_mode (setArpEnabled enabled s))"
proof -
  have 0: "setArpEnabled True s = s\<lparr>arpeggiator := (arpeggiator s)\<lparr>isEnabled := True\<rparr>\<rparr>
      \<and> setArpEnabled False s
       = s\<lparr>arpeggiator := (arpeggiator s)\<lparr>isEnabled := False, activeNotes := [], sortedNotes := []\<rparr>\<rparr>
      \<and> isEnabled (arpeggiator (setArpEnabled enabled s)) = enabled"
    by (simp add: setArpEnabled_def setEnabled_def Let_def)
  have 1: "voices (setArpEnabled enabled s) = voices s
      \<and> activeArpTouches (setArpEnabled enabled s) = activeArpTouches s
      \<and> fading (setArpEnabled enabled s) = fading s"
    by (simp add: setArpEnabled_def)
  have 2: "activeNotes (arpeggiator (setArpEnabled True s)) = activeNotes (arpeggiator s)
      \<and> activeNotes (arpeggiator (setArpEnabled False s)) = []"
    by (simp add: setArpEnabled_def setEnabled_def)
  have 3: "one_mode (setArpEnabled enabled s)"
    if "voices s = Map.empty \<and> activeArpTouches s = Map.empty"
    using that by (simp add: one_mode_def setArpEnabled_def)
  have 4: "voices (setArpEnabled enabled s) pid = Some vs
       \<and> voices (stopNote pid (setArpEnabled enabled s)) pid = None
       \<and> fading (stopNote pid (setArpEnabled enabled s)) = fading s @ map triggerRelease vs"
    if "voices s pid = Some vs"
  proof -
    have k: "voices (setArpEnabled enabled s) pid = Some vs" using that 1 by simp
    show ?thesis using k stopNote_releases[OF k] 1 by simp
  qed
  show ?thesis
    using 0 1 2 3 4 one_mode_startNote one_mode_updateNote one_mode_stopNote one_mode_disjoint
    by blast
qed

theorem setArpEnabled_no_migration_witness:
  "one_mode holding \<and> map frequency (the (voices holding 1)) = [440]
   \<and> isEnabled (arpeggiator (setArpEnabled True holding))
   \<and> voices (setArpEnabled True holding) 1 = voices holding 1
   \<and> voices (stopNote 1 (setArpEnabled True holding)) 1 = None
   \<and> map frequency (fading (stopNote 1 (setArpEnabled True holding))) = [440]
   \<and> map released (fading (stopNote 1 (setArpEnabled True holding))) = [True]
   \<and> one_mode (updateNote 1 (One 330) (1 / 2) holding)
   \<and> one_mode arp_held \<and> activeArpTouches arp_held 2 = Some [330]
   \<and> one_mode (stopNote 2 arp_held)
   \<and> voices new_AudioEngine = Map.empty \<and> activeArpTouches new_AudioEngine = Map.empty
   \<and> one_mode (setArpEnabled True new_AudioEngine)"
proof -
  have h: "one_mode holding"
    by (simp add: one_mode_def holding_def startNote_def new_AudioEngine_def new_Arpeggiator_def)
  obtain vs where vs: "voices holding 1 = Some vs" "map frequency vs = [440]" "fading holding = []"
    by (simp add: holding_def startNote_def new_AudioEngine_def new_Arpeggiator_def
        new_Voice_def triggerAttack_def)
  have a: "one_mode arp_held" "activeArpTouches arp_held 2 = Some [330]"
    by (simp_all add: one_mode_def arp_held_def arp_on_def startNote_def setArpEnabled_def
        setEnabled_def new_AudioEngine_def new_Arpeggiator_def addNote_def updateSortedNotes_def
        Let_def)
  have e: "voices new_AudioEngine = Map.empty \<and> activeArpTouches new_AudioEngine = Map.empty"
    by (simp add: new_AudioEngine_def)
  note th = setArpEnabled_no_migration[where s = holding and enabled = True and pid = 1
      and vs = vs and f = "One 330" and v = "1 / 2"]
  note ta = setArpEnabled_no_migration[where s = arp_held and enabled = True and pid = 2
      and vs = vs and f = "One 330" and v = "1 / 2"]
  note tn = setArpEnabled_no_migration[where s = new_AudioEngine and enabled = True and pid = 1
      and vs = vs and f = "One 330" and v = "1 / 2"]
  have 1: "isEnabled (arpeggiator (setArpEnabled True holding))"
    "voices (setArpEnabled True holding) 1 = voices holding 1"
    using th vs(1) by simp_all
  have 2: "voices (stopNote 1 (setArpEnabled True holding)) 1 = None"
    "fading (stopNote 1 (setArpEnabled True holding)) = fading holding @ map triggerRelease vs"
    using th vs(1) by blast+
  have "map frequency (map triggerRelease vs) = map frequency vs"
    "map released (map triggerRelease vs) = map (\<lambda>v. True) vs"
    by (simp_all add: triggerRelease_def comp_def)
  moreover have "length vs = 1" using vs(2) by (metis length_map length_Cons list.size(3) One_nat_def)
  ultimately have 3: "map frequency (fading (stopNote 1 (setArpEnabled True holding))) = [440]"
    "map released (fading (stopNote 1 (setArpEnabled True holding))) = [True]"
    using 2(2) vs(2,3) by (cases vs; simp)+
  have 4: "one_mode (updateNote 1 (One 330) (1 / 2) holding)" using th h by blast
  have 5: "one_mode (stopNote 2 arp_held)" using ta a(1) by blast
  have 6: "one_mode (setArpEnabled True new_AudioEngine)" using tn e by blast
  show ?thesis using h vs(1,2) 1 2(1) 3 4 a 5 e 6 by simp
qed

text \<open>
  C1 as it is written fails. Pointer 1 holds the note 440 with the arpeggiator off; the
  arpeggiator is switched on. Pointer 1 still has its voice in the map of voices, not
  released, and 440 is not among the held notes. A further \<open>startNote\<close> for pointer 1 then
  puts it into the map of registrations as well.
\<close>

theorem arp_migration_counterexample:
  "map frequency (the (voices holding 1)) = [440]
   \<and> isEnabled (arpeggiator switched)
   \<and> map frequency (the (voices switched 1)) = [440]
   \<and> map released (the (voices switched 1)) = [False]
   \<and> voices switched 1 \<noteq> None
   \<and> fading switched = []
   \<and> activeNotes (arpeggiator switched) = []
   \<and> activeArpTouches switched 1 = None
   \<and> voices restarted 1 \<noteq> None \<and> activeArpTouches restarted 1 = Some [330]"
  by (simp add: holding_def switched_def restarted_def startNote_def updateNote_def
      setArpEnabled_def setEnabled_def new_AudioEngine_def new_Arpeggiator_def new_Voice_def
      triggerAttack_def addNote_def updateSortedNotes_def removeOldFreqs_def Let_def)

text \<open>
  C4, as the code has it. For a pointer id that has no voices and no registration,
  \<open>stopNote\<close> leaves the engine as it is, and so does \<open>updateNote\<close> while the arpeggiator is
  off. For a track index outside the array of tracks, \<open>stopRecording\<close>, \<open>recordTouchEvent\<close>,
  \<open>toggleTrackPlayback\<close> and \<open>setTrackVolume\<close> end in a \<open>TypeError\<close>, and so does
  \<open>startRecording\<close> unless a track is recording, when it returns and changes nothing.
\<close>

theorem unknown_pointer_or_track:
  "(voices s pid = None \<and> activeArpTouches s pid = None \<longrightarrow> stopNote pid s = s)
   \<and> (voices s pid = None \<and> activeArpTouches s pid = None \<and> \<not> isEnabled (arpeggiator s) \<longrightarrow>
         updateNote pid f v s = s)
   \<and> (\<not> (0 \<le> i \<and> i < int (length (tracks s))) \<longrightarrow>
         startRecording i s = (if \<exists>t \<in> set (tracks s). isRecording t then Inr s else Inl TypeError)
       \<and> stopRecording i now capture s = Inl TypeError
       \<and> recordTouchEvent i x y pid c now s = Inl TypeError
       \<and> toggleTrackPlayback i s = Inl TypeError
       \<and> setTrackVolume i vol s = Inl TypeError)"
proof -
  have 1: "stopNote pid s = s" if "voices s pid = None \<and> activeArpTouches s pid = None"
  proof -
    have "(activeArpTouches s)(pid := None) = activeArpTouches s"
      using that by (simp add: fun_upd_idem)
    then show ?thesis
      using that by (simp add: stopNote_def Let_def removeOldFreqs_def)
  qed
  have 2: "updateNote pid f v s = s"
    if "voices s pid = None \<and> activeArpTouches s pid = None \<and> \<not> isEnabled (arpeggiator s)"
    using that by (simp add: updateNote_def Let_def)
  have 3: "startRecording i s = (if \<exists>t \<in> set (tracks s). isRecording t then Inr s else Inl TypeError)
       \<and> stopRecording i now capture s = Inl TypeError
       \<and> recordTouchEvent i x y pid c now s = Inl TypeError
       \<and> toggleTrackPlayback i s = Inl TypeError
       \<and> setTrackVolume i vol s = Inl TypeError"
    if "\<not> (0 \<le> i \<and> i < int (length (tracks s)))"
  proof -
    from that have "track_at (tracks s) i = None" by (simp add: track_at_def)
    then show ?thesis
      by (simp add: startRecording_def stopRecording_def recordTouchEvent_def
          toggleTrackPlayback_def setTrackVolume_def)
  qed
  show ?thesis using 1 2 3 by blast
qed

theorem unknown_pointer_or_track_witness:
  "voices new_AudioEngine 7 = None \<and> activeArpTouches new_AudioEngine 7 = None
   \<and> \<not> isEnabled (arpeggiator new_AudioEngine)
   \<and> length (tracks new_AudioEngine) = 4
   \<and> stopNote 7 new_AudioEngine = new_AudioEngine
   \<and> updateNote 7 (One 440) (1 / 2) new_AudioEngine = new_AudioEngine
   \<and> startRecording 4 new_AudioEngine = Inl TypeError
   \<and> stopRecording 4 0 StopThrows new_AudioEngine = Inl TypeError
   \<and> recordTouchEvent 4 0 0 7 ''#fff'' 0 new_AudioEngine = Inl TypeError
   \<and> toggleTrackPlayback 4 new_AudioEngine = Inl TypeError
   \<and> setTrackVolume 4 (1 / 2) new_AudioEngine = Inl TypeError"
proof -
  have h: "voices new_AudioEngine 7 = None \<and> activeArpTouches new_AudioEngine 7 = None"
    "\<not> isEnabled (arpeggiator new_AudioEngine)"
    "\<not> (0 \<le> (4::int) \<and> 4 < int (length (tracks new_AudioEngine)))"
    by (simp_all add: new_AudioEngine_def new_Arpeggiator_def)
  have n: "\<not> (\<exists>t \<in> set (tracks new_AudioEngine). isRecording t)"
    by (simp add: new_AudioEngine_def new_LoopTrack_def)
  have l: "length (tracks new_AudioEngine) = 4"
    by (simp add: new_AudioEngine_def)
  show ?thesis
    using h n l
      unknown_pointer_or_track[of new_AudioEngine 7 "One 440" "1 / 2" 4 0 StopThrows 0 0 "''#fff''" "1 / 2"]
    by simp
qed

text \<open>
  C4 as it is written fails. With the arpeggiator on, \<open>updateNote\<close> for the unknown pointer
  7 registers it and holds its note. A looper operation on track index 4 ends in a
  \<open>TypeError\<close>.
\<close>

theorem unknown_pointer_counterexample:
  "voices arp_on 7 = None \<and> activeArpTouches arp_on 7 = None
   \<and> activeArpTouches (updateNote 7 (One 440) (1 / 2) arp_on) 7 = Some [440]
   \<and> activeNotes (arpeggiator (updateNote 7 (One 440) (1 / 2) arp_on)) = [440]
   \<and> updateNote 7 (One 440) (1 / 2) arp_on \<noteq> arp_on
   \<and> length (tracks new_AudioEngine) = 4
   \<and> stopRecording 4 0 (Captured (AudioBuffer 1)) new_AudioEngine = Inl TypeError
   \<and> setTrackVolume 4 (1 / 2) new_AudioEngine = Inl TypeError
   \<and> toggleTrackPlayback (- 1) new_AudioEngine = Inl TypeError"
proof -
  have a: "voices arp_on 7 = None \<and> activeArpTouches arp_on 7 = None
      \<and> activeArpTouches (updateNote 7 (One 440) (1 / 2) arp_on) 7 = Some [440]
      \<and> activeNotes (arpeggiator (updateNote 7 (One 440) (1 / 2) arp_on)) = [440]"
    by (simp add: arp_on_def updateNote_def setArpEnabled_def setEnabled_def new_AudioEngine_def
        new_Arpeggiator_def addNote_def updateSortedNotes_def removeOldFreqs_def Let_def)
  then have b: "updateNote 7 (One 440) (1 / 2) arp_on \<noteq> arp_on" by auto
  have c: "length (tracks new_AudioEngine) = 4
      \<and> stopRecording 4 0 (Captured (AudioBuffer 1)) new_AudioEngine = Inl TypeError
      \<and> setTrackVolume 4 (1 / 2) new_AudioEngine = Inl TypeError
      \<and> toggleTrackPlayback (- 1) new_AudioEngine = Inl TypeError"
    by (simp add: new_AudioEngine_def stopRecording_def setTrackVolume_def
        toggleTrackPlayback_def track_at_def)
  show ?thesis using a b c by blast
qed

end
